theory Spec2Isabelle
  imports Main "HOL-Library.Multiset"
begin

section \<open>Strings and values as the source's language has them\<close>

text \<open>
  Source strings are modelled as \<^typ>\<open>string\<close>, one \<^typ>\<open>char\<close> per code unit
  (the range \<open>0..255\<close>).  An optional or nullable field is an \<^typ>\<open>'a option\<close>;
  \<open>undefined\<close> and \<open>null\<close> are both \<^term>\<open>None\<close>.
\<close>

text \<open>The white space of \<open>String.prototype.trim\<close> and of the regular expression
  class \<open>\s\<close>, within the modelled range: TAB, LF, VT, FF, CR, SPACE, NBSP.\<close>

definition isWhiteSpace :: "char \<Rightarrow> bool" where
  "isWhiteSpace c =
     (c \<in> set [CHR 0x09, CHR 0x0A, CHR 0x0B, CHR 0x0C, CHR 0x0D, CHR 0x20, CHR 0xA0])"

definition trim :: "string \<Rightarrow> string" where
  "trim s = rev (dropWhile isWhiteSpace (rev (dropWhile isWhiteSpace s)))"

text \<open>\<open>toLowerCase\<close> within the modelled range: the letters \<open>A..Z\<close> and the Latin-1
  capitals \<open>0xC0..0xDE\<close> (all but the multiplication sign \<open>0xD7\<close>) move up by 32;
  every other code unit is kept.\<close>

definition lowerChar :: "char \<Rightarrow> char" where
  "lowerChar c =
     (let n = (of_char c :: nat)
      in if (65 \<le> n \<and> n \<le> 90) \<or> (192 \<le> n \<and> n \<le> 222 \<and> n \<noteq> 215) then char_of (n + 32)
         else c)"

definition toLowerCase :: "string \<Rightarrow> string" where
  "toLowerCase s = map lowerChar s"

text \<open>\<open>s.includes(q)\<close>: \<open>q\<close> occurs in \<open>s\<close> as a contiguous run.\<close>

fun includes_str :: "string \<Rightarrow> string \<Rightarrow> bool" where
  "includes_str [] q = (q = [])"
| "includes_str (c # s) q = (take (length q) (c # s) = q \<or> includes_str s q)"

text \<open>Truthiness of an optional string: absent and empty are both falsy.\<close>

definition truthy :: "string option \<Rightarrow> bool" where
  "truthy v = (case v of None \<Rightarrow> False | Some s \<Rightarrow> s \<noteq> [])"

text \<open>\<open>a || d\<close> for an optional string \<open>a\<close> and a string \<open>d\<close>.\<close>

definition orElse :: "string option \<Rightarrow> string \<Rightarrow> string" where
  "orElse v d = (case v of None \<Rightarrow> d | Some s \<Rightarrow> if s = [] then d else s)"

text \<open>A \<open>forEach\<close>/\<open>for .. of\<close> loop whose body may throw: the first exception ends it.\<close>

fun forEach :: "('a \<Rightarrow> 's \<Rightarrow> 'e + 's) \<Rightarrow> 'a list \<Rightarrow> 's \<Rightarrow> 'e + 's" where
  "forEach body [] s = Inr s"
| "forEach body (x # xs) s =
     (case body x s of Inl e \<Rightarrow> Inl e | Inr s' \<Rightarrow> forEach body xs s')"

section \<open>Board projector: \<open>useBoardColumnFeatures\<close>\<close>

record feature =
  id_of :: string
  category :: "string option"
  description :: string
  status :: string
  priority :: "int option"
  worktreePath :: "string option"

datatype column_id = Backlog | In_progress | Waiting_approval | Verified | Completed

record columns =
  backlog :: "feature list"
  in_progress :: "feature list"
  waiting_approval :: "feature list"
  verified :: "feature list"
  completed :: "feature list"

definition emptyColumns :: columns where
  "emptyColumns = \<lparr>backlog = [], in_progress = [], waiting_approval = [], verified = [],
     completed = []\<rparr>"

text \<open>
  \<open>map\<close> is an object literal, so \<open>map[status]\<close> finds the five own properties and,
  through the prototype chain, the properties every plain object inherits.  The own
  properties hold arrays; an inherited one is a truthy value without a \<open>push\<close> method.
\<close>

datatype property = Column column_id | Inherited | Undefined

definition objectPrototypeNames :: "string list" where
  "objectPrototypeNames =
     [''constructor'', ''__defineGetter__'', ''__defineSetter__'', ''hasOwnProperty'',
      ''__lookupGetter__'', ''__lookupSetter__'', ''isPrototypeOf'',
      ''propertyIsEnumerable'', ''toString'', ''valueOf'', ''__proto__'',
      ''toLocaleString'']"

definition getProperty :: "string \<Rightarrow> property" where
  "getProperty k =
     (if k = ''backlog'' then Column Backlog
      else if k = ''in_progress'' then Column In_progress
      else if k = ''waiting_approval'' then Column Waiting_approval
      else if k = ''verified'' then Column Verified
      else if k = ''completed'' then Column Completed
      else if k \<in> set objectPrototypeNames then Inherited
      else Undefined)"

datatype js_error = TypeError

fun column :: "column_id \<Rightarrow> columns \<Rightarrow> feature list" where
  "column Backlog m = backlog m"
| "column In_progress m = in_progress m"
| "column Waiting_approval m = waiting_approval m"
| "column Verified m = verified m"
| "column Completed m = completed m"

fun push :: "column_id \<Rightarrow> feature \<Rightarrow> columns \<Rightarrow> columns" where
  "push Backlog f m = m\<lparr>backlog := backlog m @ [f]\<rparr>"
| "push In_progress f m = m\<lparr>in_progress := in_progress m @ [f]\<rparr>"
| "push Waiting_approval f m = m\<lparr>waiting_approval := waiting_approval m @ [f]\<rparr>"
| "push Verified f m = m\<lparr>verified := verified m @ [f]\<rparr>"
| "push Completed f m = m\<lparr>completed := completed m @ [f]\<rparr>"

text \<open>The text filter's predicate, on the normalised query.\<close>

definition matchesQuery :: "string \<Rightarrow> feature \<Rightarrow> bool" where
  "matchesQuery normalizedQuery f =
     (includes_str (toLowerCase (description f)) normalizedQuery \<or>
      (case category f of None \<Rightarrow> False
       | Some c \<Rightarrow> includes_str (toLowerCase c) normalizedQuery))"

text \<open>The worktree filter's predicate; \<open>currentWorktree = None\<close> is the main branch.\<close>

definition inWorktree :: "string option \<Rightarrow> feature \<Rightarrow> bool" where
  "inWorktree currentWorktree f =
     (if \<not> truthy (worktreePath f) then True
      else if currentWorktree = None then False
      else worktreePath f = currentWorktree)"

text \<open>The body of the \<open>forEach\<close> that fills the columns.\<close>

definition place :: "string list \<Rightarrow> feature \<Rightarrow> columns \<Rightarrow> js_error + columns" where
  "place runningAutoTasks f m =
     (if id_of f \<in> set runningAutoTasks then Inr (push In_progress f m)
      else (case getProperty (status f) of
              Column c \<Rightarrow> Inr (push c f m)
            | Inherited \<Rightarrow> Inl TypeError
            | Undefined \<Rightarrow> Inr (push Backlog f m)))"

definition priorityKey :: "feature \<Rightarrow> int" where
  "priorityKey f = (case priority f of None \<Rightarrow> 999 | Some p \<Rightarrow> p)"

definition filteredFeatures :: "feature list \<Rightarrow> string \<Rightarrow> string option \<Rightarrow> feature list" where
  "filteredFeatures features searchQuery currentWorktree =
     (let normalizedQuery = trim (toLowerCase searchQuery);
          byQuery = (if normalizedQuery \<noteq> [] then filter (matchesQuery normalizedQuery) features
                     else features)
      in filter (inWorktree currentWorktree) byQuery)"

definition columnFeaturesMap ::
  "feature list \<Rightarrow> string list \<Rightarrow> string \<Rightarrow> string option \<Rightarrow> js_error + columns" where
  "columnFeaturesMap features runningAutoTasks searchQuery currentWorktree =
     (case forEach (place runningAutoTasks)
             (filteredFeatures features searchQuery currentWorktree) emptyColumns of
        Inl e \<Rightarrow> Inl e
      | Inr m \<Rightarrow> Inr (m\<lparr>backlog := sort_key priorityKey (backlog m)\<rparr>))"

text \<open>All five columns of a result, one after the other.\<close>

definition allColumns :: "columns \<Rightarrow> feature list" where
  "allColumns m = backlog m @ in_progress m @ waiting_approval m @ verified m @ completed m"

text \<open>The column the loop body chooses for a feature, \<^term>\<open>None\<close> where it throws.\<close>

definition target :: "string list \<Rightarrow> feature \<Rightarrow> column_id option" where
  "target runningAutoTasks f =
     (if id_of f \<in> set runningAutoTasks then Some In_progress
      else (case getProperty (status f) of
              Column c \<Rightarrow> Some c
            | Inherited \<Rightarrow> None
            | Undefined \<Rightarrow> Some Backlog))"

text \<open>What the conditional text filter keeps: everything when the normalised query
  is empty, the matching features otherwise.\<close>

definition passesQuery :: "string \<Rightarrow> feature \<Rightarrow> bool" where
  "passesQuery searchQuery f =
     (let normalizedQuery = trim (toLowerCase searchQuery)
      in normalizedQuery = [] \<or> matchesQuery normalizedQuery f)"

text \<open>Sample features for the concrete runs below.\<close>

definition featLogin :: feature where
  "featLogin = \<lparr>id_of = ''user-login'', category = Some ''Auth'',
     description = ''Add Login form'', status = ''completed'', priority = Some 2,
     worktreePath = None\<rparr>"

definition featScoped :: feature where
  "featScoped = \<lparr>id_of = ''login-audit'', category = None,
     description = ''Audit login attempts'', status = ''verified'', priority = None,
     worktreePath = Some ''/repo/.worktrees/audit''\<rparr>"

definition featMenu :: feature where
  "featMenu = \<lparr>id_of = ''cafe-menu'', category = None,
     description = [CHR ''C'', CHR ''A'', CHR ''F'', CHR 0xC9] @ '' menu'', status = ''backlog'',
     priority = None, worktreePath = None\<rparr>"

definition featOdd :: feature where
  "featOdd = \<lparr>id_of = ''odd-status'', category = None,
     description = ''Imported item'', status = ''constructor'', priority = None,
     worktreePath = None\<rparr>"

section \<open>External processes and the file system\<close>

text \<open>
  The route handlers drive git, the hosting CLI and the file system.  What these answer
  is not the handlers' to decide, so the model takes them as a \<open>system\<close> acting on an
  arbitrary world \<^typ>\<open>'w\<close>: every call returns a value or throws, and may change the
  world.  A thrown value is read by the handlers through \<open>stderr\<close> and \<open>message\<close>.
  The members \<open>isGitRepo\<close> and \<open>getErrorMessage\<close> stand for the helpers
  imported from \<open>../common.js\<close>, \<open>pathJoin\<close> for \<open>path.join\<close>, \<open>platform\<close> for
  \<open>process.platform\<close>, and \<open>number\<close> for \<open>Number\<close> on the integral values
  git prints (\<^term>\<open>None\<close> is \<open>NaN\<close>).
\<close>

record failure =
  stderr :: "string option"
  message :: "string option"

text \<open>The options of one \<open>execAsync\<close> call: the working directory, and whether the
  environment with the extended \<open>PATH\<close> is passed.\<close>

record exec_options =
  cwd :: "string option"
  extendedPath :: bool

record 'w system =
  exec :: "string \<Rightarrow> exec_options \<Rightarrow> 'w \<Rightarrow> (failure + string) \<times> 'w"
  isGitRepo :: "string \<Rightarrow> 'w \<Rightarrow> (failure + bool) \<times> 'w"
  fsMkdir :: "string \<Rightarrow> 'w \<Rightarrow> (failure + unit) \<times> 'w"
  fsAccess :: "string \<Rightarrow> 'w \<Rightarrow> (failure + unit) \<times> 'w"
  fsSymlink :: "string \<Rightarrow> string \<Rightarrow> string \<Rightarrow> 'w \<Rightarrow> (failure + unit) \<times> 'w"
  pathJoin :: "string \<Rightarrow> string \<Rightarrow> string"
  platform :: string
  number :: "string \<Rightarrow> int option"
  getErrorMessage :: "failure \<Rightarrow> string"

text \<open>A handler's state: the world, and the commands executed so far, in order, each
  with its options and with what it returned or threw.\<close>

record invocation =
  command :: string
  options :: exec_options
  outcome :: "failure + string"

type_synonym 'w state = "'w \<times> invocation list"

type_synonym ('w, 'a) action = "'w state \<Rightarrow> (failure + 'a) \<times> 'w state"

definition execAsync :: "'w system \<Rightarrow> string \<Rightarrow> exec_options \<Rightarrow> ('w, string) action" where
  "execAsync sys cmd opts =
     (\<lambda>(w, log). case exec sys cmd opts w of
        (r, w') \<Rightarrow> (r, (w', log @ [\<lparr>command = cmd, options = opts, outcome = r\<rparr>])))"

text \<open>A call that leaves no entry in the command log.\<close>

definition call :: "('w \<Rightarrow> (failure + 'a) \<times> 'w) \<Rightarrow> ('w, 'a) action" where
  "call f = (\<lambda>(w, log). case f w of (r, w') \<Rightarrow> (r, (w', log)))"

text \<open>Sequencing (\<open>await\<close> one action, then go on with its value; a throw skips the
  rest), returning, and \<open>try { .. } catch (e) { .. }\<close>.\<close>

definition andThen :: "('w, 'a) action \<Rightarrow> ('a \<Rightarrow> ('w, 'b) action) \<Rightarrow> ('w, 'b) action" where
  "andThen m k = (\<lambda>s. case m s of (Inl e, s') \<Rightarrow> (Inl e, s') | (Inr a, s') \<Rightarrow> k a s')"

definition yield :: "'a \<Rightarrow> ('w, 'a) action" where
  "yield a = (\<lambda>s. (Inr a, s))"

definition tryCatch :: "('w, 'a) action \<Rightarrow> (failure \<Rightarrow> ('w, 'a) action) \<Rightarrow> ('w, 'a) action" where
  "tryCatch m h = (\<lambda>s. case m s of (Inl e, s') \<Rightarrow> h e s' | (Inr a, s') \<Rightarrow> (Inr a, s'))"

text \<open>What a handler sends: \<open>res.status(code).json({success: false, error})\<close> or
  \<open>res.json({success: true, ..})\<close> with its payload.\<close>

datatype 'a response = Failure nat string | Success 'a

text \<open>The handler's outermost \<open>try\<close>: whatever is thrown inside becomes a 500.\<close>

definition handler :: "'w system \<Rightarrow> ('w, 'a response) action \<Rightarrow> 'w state \<Rightarrow> 'a response \<times> 'w state" where
  "handler sys body =
     (\<lambda>s. case body s of
        (Inl e, s') \<Rightarrow> (Failure 500 (getErrorMessage sys e), s')
      | (Inr r, s') \<Rightarrow> (r, s'))"

text \<open>\<open>err.stderr || err.message || fallback\<close>.\<close>

definition describe :: "failure \<Rightarrow> string \<Rightarrow> string" where
  "describe err fallback = orElse (stderr err) (orElse (message err) fallback)"

text \<open>\<open>s.split(sep)\<close> for a one-character separator.\<close>

fun split :: "char \<Rightarrow> string \<Rightarrow> string list" where
  "split sep [] = [[]]"
| "split sep (c # s) =
     (if c = sep then [] # split sep s
      else (case split sep s of [] \<Rightarrow> [[c]] | l # ls \<Rightarrow> (c # l) # ls))"

text \<open>\<open>s.startsWith(p)\<close>, and \<open>s.replace(pat, rep)\<close> for a string pattern, which
  replaces the first occurrence only.\<close>

definition startsWith :: "string \<Rightarrow> string \<Rightarrow> bool" where
  "startsWith s p = (take (length p) s = p)"

fun replaceFirst :: "string \<Rightarrow> string \<Rightarrow> string \<Rightarrow> string" where
  "replaceFirst pat rep [] = (if pat = [] then rep else [])"
| "replaceFirst pat rep (c # s) =
     (if take (length pat) (c # s) = pat then rep @ drop (length pat) (c # s)
      else c # replaceFirst pat rep s)"

text \<open>\<open>s.replace(/"/g, '\\"')\<close>: a backslash before every double quote.\<close>

definition escapeQuotes :: "string \<Rightarrow> string" where
  "escapeQuotes s = concat (map (\<lambda>c. if c = CHR 0x22 then [CHR 0x5C, CHR 0x22] else [c]) s)"

section \<open>Isolation registry: \<open>createCreateHandler\<close>\<close>





definition inProject :: "string \<Rightarrow> exec_options" where
  "inProject projectPath = \<lparr>cwd = Some projectPath, extendedPath = False\<rparr>"







section \<open>Isolation registry: \<open>createListHandler\<close>\<close>

record list_request =
  lr_projectPath :: "string option"
  lr_includeDetails :: "bool option"

record ahead_behind =
  ahead :: int
  behind :: int

record worktree_info =
  wt_path :: string
  wt_branch :: string
  isMain :: bool
  hasChanges :: "bool option"
  changedFilesCount :: "nat option"
  aheadBehind :: "ahead_behind option"

text \<open>The variables of the parsing loop: the entries pushed so far, the fields of
  \<open>current\<close>, and \<open>isFirst\<close>.\<close>

record parse_state =
  worktrees :: "worktree_info list"
  current_path :: "string option"
  current_branch :: "string option"
  isFirst :: bool

definition parseStart :: parse_state where
  "parseStart = \<lparr>worktrees = [], current_path = None, current_branch = None, isFirst = True\<rparr>"

definition parseLine :: "string \<Rightarrow> parse_state \<Rightarrow> parse_state" where
  "parseLine line st =
     (if startsWith line ''worktree '' then st\<lparr>current_path := Some (drop 9 line)\<rparr>
      else if startsWith line ''branch ''
        then st\<lparr>current_branch := Some (replaceFirst ''refs/heads/'' [] (drop 7 line))\<rparr>
      else if line = []
        then (if truthy (current_path st) \<and> truthy (current_branch st)
              then st\<lparr>worktrees := worktrees st @
                        [\<lparr>wt_path = the (current_path st), wt_branch = the (current_branch st),
                          isMain = isFirst st, hasChanges = None, changedFilesCount = None,
                          aheadBehind = None\<rparr>],
                      current_path := None, current_branch := None, isFirst := False\<rparr>
              else st\<lparr>current_path := None, current_branch := None\<rparr>)
      else st)"

definition parseWorktrees :: "string \<Rightarrow> worktree_info list" where
  "parseWorktrees stdout = worktrees (fold parseLine (split (CHR 0x0A) stdout) parseStart)"

text \<open>The body of the details loop for one entry.  \<open>[behind, ahead]\<close> are the first two
  numbers of the tab-separated output; a missing one, \<open>NaN\<close> and \<open>0\<close> all give \<open>0\<close>.\<close>

definition inWorktreeDir :: "worktree_info \<Rightarrow> exec_options" where
  "inWorktreeDir wt = \<lparr>cwd = Some (wt_path wt), extendedPath = False\<rparr>"

definition revListCmd :: "worktree_info \<Rightarrow> string" where
  "revListCmd wt = ''git rev-list --left-right --count origin/'' @ wt_branch wt @ ''...HEAD''"

definition orZero :: "int option list \<Rightarrow> nat \<Rightarrow> int" where
  "orZero nums i = (if i < length nums then (case nums ! i of None \<Rightarrow> 0 | Some n \<Rightarrow> n) else 0)"

definition changedFiles :: "string \<Rightarrow> string list" where
  "changedFiles out = filter (\<lambda>l. l \<noteq> []) (split (CHR 0x0A) out)"

definition withDetails :: "'w system \<Rightarrow> worktree_info \<Rightarrow> ('w, worktree_info) action" where
  "withDetails sys wt =
     tryCatch
       (andThen (execAsync sys ''git status --porcelain'' (inWorktreeDir wt)) (\<lambda>out.
          let counted = wt\<lparr>hasChanges := Some (0 < length (changedFiles out)),
                           changedFilesCount := Some (length (changedFiles out))\<rparr>
          in tryCatch
               (andThen (execAsync sys (revListCmd wt) (inWorktreeDir wt)) (\<lambda>revList.
                  let nums = map (number sys) (split (CHR 0x09) (trim revList))
                  in yield (counted\<lparr>aheadBehind :=
                              Some \<lparr>ahead = orZero nums 1, behind = orZero nums 0\<rparr>\<rparr>)))
               (\<lambda>_. yield (counted\<lparr>aheadBehind := Some \<lparr>ahead = 0, behind = 0\<rparr>\<rparr>))))
       (\<lambda>_. yield wt)"

text \<open>\<open>for (const wt of worktrees)\<close> with a body that updates the entry.\<close>

fun forEachEntry :: "('a \<Rightarrow> ('w, 'a) action) \<Rightarrow> 'a list \<Rightarrow> ('w, 'a list) action" where
  "forEachEntry body [] = yield []"
| "forEachEntry body (x # xs) =
     andThen (body x) (\<lambda>y. andThen (forEachEntry body xs) (\<lambda>ys. yield (y # ys)))"

definition listHandler ::
  "'w system \<Rightarrow> list_request \<Rightarrow> 'w state \<Rightarrow> worktree_info list response \<times> 'w state" where
  "listHandler sys body =
     handler sys
       (if \<not> truthy (lr_projectPath body) then yield (Failure 400 ''projectPath required'')
        else
          let projectPath = the (lr_projectPath body)
          in andThen (call (isGitRepo sys projectPath)) (\<lambda>isRepo.
             if \<not> isRepo then yield (Success [])
             else
               andThen (execAsync sys ''git worktree list --porcelain''
                          (inProject projectPath)) (\<lambda>stdout.
               if lr_includeDetails body = Some True
               then andThen (forEachEntry (withDetails sys) (parseWorktrees stdout))
                      (\<lambda>detailed. yield (Success detailed))
               else yield (Success (parseWorktrees stdout)))))"

text \<open>The lines of one record block of the listing: none is empty, exactly one names the
  worktree's path, exactly one names its branch, and neither name is empty.\<close>

definition blockPaths :: "string list \<Rightarrow> string list" where
  "blockPaths b = map (drop 9) (filter (\<lambda>l. startsWith l ''worktree '') b)"

definition blockRefs :: "string list \<Rightarrow> string list" where
  "blockRefs b = map (drop 7) (filter (\<lambda>l. startsWith l ''branch '') b)"

definition wellFormedBlock :: "string list \<Rightarrow> bool" where
  "wellFormedBlock b =
     ([] \<notin> set b \<and>
      (case blockPaths b of [p] \<Rightarrow> p \<noteq> [] | _ \<Rightarrow> False) \<and>
      (case blockRefs b of [r] \<Rightarrow> r \<noteq> [] \<and> r \<noteq> ''refs/heads/'' | _ \<Rightarrow> False))"

text \<open>A listing as git prints it for a main checkout and one more worktree.\<close>

definition sampleListing :: string where
  "sampleListing =
     ''worktree /repo'' @ [CHR 0x0A] @ ''HEAD 1a2b3c4d'' @ [CHR 0x0A]
       @ ''branch refs/heads/main'' @ [CHR 0x0A] @ [CHR 0x0A]
       @ ''worktree /repo/.worktrees/login'' @ [CHR 0x0A] @ ''HEAD 5e6f7a8b'' @ [CHR 0x0A]
       @ ''branch refs/heads/feature/login'' @ [CHR 0x0A] @ [CHR 0x0A]"

definition sampleBlocks :: "string list list" where
  "sampleBlocks =
     [[''worktree /repo'', ''HEAD 1a2b3c4d'', ''branch refs/heads/main''],
      [''worktree /repo/.worktrees/login'', ''HEAD 5e6f7a8b'',
       ''branch refs/heads/feature/login'']]"

text \<open>The entry a well-formed block stands for, and the entries of a sequence of blocks:
  the first is the main worktree, no other is.\<close>

definition blockEntry :: "bool \<Rightarrow> string list \<Rightarrow> worktree_info" where
  "blockEntry first b =
     \<lparr>wt_path = hd (blockPaths b),
      wt_branch = replaceFirst ''refs/heads/'' [] (hd (blockRefs b)),
      isMain = first, hasChanges = None, changedFilesCount = None, aheadBehind = None\<rparr>"

fun blockEntries :: "bool \<Rightarrow> string list list \<Rightarrow> worktree_info list" where
  "blockEntries first [] = []"
| "blockEntries first (b # bs) = blockEntry first b # blockEntries False bs"

text \<open>What the details loop leaves untouched in an entry.\<close>

definition core :: "worktree_info \<Rightarrow> string \<times> string \<times> bool" where
  "core wt = (wt_path wt, wt_branch wt, isMain wt)"

text \<open>A system for the concrete runs of the listing: the repository of
  \<open>sampleListing\<close>, where \<open>git status\<close> fails in the main checkout and prints one
  changed file in the other worktree, and no branch has an upstream.\<close>

definition sampleSystem :: "unit system" where
  "sampleSystem =
     \<lparr>exec = (\<lambda>cmd opts w.
         if cmd = ''git worktree list --porcelain'' then (Inr sampleListing, w)
         else if cmd = ''git status --porcelain''
           then (if cwd opts = Some ''/repo''
                 then (Inl \<lparr>stderr = Some ''fatal: index file corrupt'', message = None\<rparr>, w)
                 else (Inr ('' M src/app.ts'' @ [CHR 0x0A]), w))
         else (Inl \<lparr>stderr = Some ''fatal: ambiguous argument'', message = None\<rparr>, w)),
      isGitRepo = (\<lambda>p w. (Inr True, w)),
      fsMkdir = (\<lambda>p w. (Inr (), w)),
      fsAccess = (\<lambda>p w. (Inr (), w)),
      fsSymlink = (\<lambda>a b t w. (Inr (), w)),
      pathJoin = (\<lambda>a b. a @ ''/'' @ b),
      platform = ''linux'',
      number = (\<lambda>s. None),
      getErrorMessage = (\<lambda>e. orElse (message e) ''Unknown error'')\<rparr>"

definition sampleRequest :: list_request where
  "sampleRequest = \<lparr>lr_projectPath = Some ''/repo'', lr_includeDetails = Some True\<rparr>"

text \<open>An entry without details: the three optional fields are absent.\<close>

definition noDetails :: "worktree_info \<Rightarrow> bool" where
  "noDetails wt = (hasChanges wt = None \<and> changedFilesCount wt = None \<and> aheadBehind wt = None)"

definition listingLog :: "string \<Rightarrow> string \<Rightarrow> invocation list" where
  "listingLog projectPath stdout =
     [\<lparr>command = ''git worktree list --porcelain'', options = inProject projectPath,
       outcome = Inr stdout\<rparr>]"

text \<open>The two entries of \<open>sampleListing\<close> as the parsing loop pushes them.\<close>

definition sampleMainEntry :: worktree_info where
  "sampleMainEntry =
     \<lparr>wt_path = ''/repo'', wt_branch = ''main'', isMain = True, hasChanges = None,
      changedFilesCount = None, aheadBehind = None\<rparr>"

definition sampleLoginEntry :: worktree_info where
  "sampleLoginEntry =
     \<lparr>wt_path = ''/repo/.worktrees/login'', wt_branch = ''feature/login'', isMain = False,
      hasChanges = None, changedFilesCount = None, aheadBehind = None\<rparr>"

section \<open>The regular expressions of the fork detection\<close>

text \<open>
  The two patterns of \<open>createCreatePRHandler\<close> are sequences of items: a character class
  repeated at least \<open>lo\<close> times, greedily or lazily; one character of a class; a literal;
  an optional literal.  \<open>matchHere\<close> is the backtracking matcher: it tries the
  alternatives of the first item in the engine's order of preference, for each of them
  the rest of the pattern, and answers with the text every item consumed in the first
  way that succeeds.  Groups are read off these texts.
\<close>

datatype item = Rep "char \<Rightarrow> bool" nat bool | One "char \<Rightarrow> bool" | Lit string | Opt string

fun firstSome :: "('a \<Rightarrow> 'b option) \<Rightarrow> 'a list \<Rightarrow> 'b option" where
  "firstSome f [] = None"
| "firstSome f (x # xs) = (case f x of Some y \<Rightarrow> Some y | None \<Rightarrow> firstSome f xs)"

text \<open>The repetition counts to try, between \<open>lo\<close> and the longest run \<open>hi\<close>: longest
  first when greedy, shortest first when lazy.\<close>

definition counts :: "bool \<Rightarrow> nat \<Rightarrow> nat \<Rightarrow> nat list" where
  "counts greedy lo hi = (if greedy then rev [lo..<Suc hi] else [lo..<Suc hi])"

fun matchHere :: "item list \<Rightarrow> string \<Rightarrow> string list option" where
  "matchHere [] s = Some []"
| "matchHere (Lit l # rest) s =
     (if startsWith s l then map_option (Cons l) (matchHere rest (drop (length l) s))
      else None)"
| "matchHere (Opt l # rest) s =
     (case (if startsWith s l then map_option (Cons l) (matchHere rest (drop (length l) s))
            else None) of
        Some r \<Rightarrow> Some r
      | None \<Rightarrow> map_option (Cons []) (matchHere rest s))"
| "matchHere (One cls # rest) s =
     (case s of [] \<Rightarrow> None
      | c # s' \<Rightarrow> if cls c then map_option (Cons [c]) (matchHere rest s') else None)"
| "matchHere (Rep cls lo greedy # rest) s =
     firstSome (\<lambda>k. map_option (Cons (take k s)) (matchHere rest (drop k s)))
       (counts greedy lo (length (takeWhile cls s)))"

text \<open>What an item can consume, whatever the order of preference.\<close>

fun fits :: "item \<Rightarrow> string \<Rightarrow> bool" where
  "fits (Rep cls lo g) seg = (lo \<le> length seg \<and> (\<forall>c \<in> set seg. cls c))"
| "fits (One cls) seg = (\<exists>c. seg = [c] \<and> cls c)"
| "fits (Lit l) seg = (seg = l)"
| "fits (Opt l) seg = (seg = l \<or> seg = [])"

text \<open>A pattern without \<open>^\<close> matches at the leftmost position where it can.\<close>

fun search :: "item list \<Rightarrow> string \<Rightarrow> string list option" where
  "search items [] = matchHere items []"
| "search items (c # s) =
     (case matchHere items (c # s) of Some r \<Rightarrow> Some r | None \<Rightarrow> search items s)"

text \<open>The classes \<open>\w\<close>, \<open>.\<close>, \<open>[:/]\<close>, \<open>[^/]\<close> and \<open>[^/\s]\<close>; \<open>\s\<close> is
  \<^const>\<open>isWhiteSpace\<close>.\<close>

definition isWord :: "char \<Rightarrow> bool" where
  "isWord c =
     (let n = (of_char c :: nat)
      in (97 \<le> n \<and> n \<le> 122) \<or> (65 \<le> n \<and> n \<le> 90) \<or> (48 \<le> n \<and> n \<le> 57) \<or>
         c = CHR ''_'')"

definition isDot :: "char \<Rightarrow> bool" where
  "isDot c = (c \<noteq> CHR 0x0A \<and> c \<noteq> CHR 0x0D)"

definition isColonOrSlash :: "char \<Rightarrow> bool" where
  "isColonOrSlash c = (c = CHR '':'' \<or> c = CHR ''/'')"

definition notSlash :: "char \<Rightarrow> bool" where
  "notSlash c = (c \<noteq> CHR ''/'')"

definition notSlashSpace :: "char \<Rightarrow> bool" where
  "notSlashSpace c = (c \<noteq> CHR ''/'' \<and> \<not> isWhiteSpace c)"

text \<open>\<open>/^(\w+)\s+.*[:/]([^/]+)\/([^/\s]+?)(?:\.git)?\s+\(fetch\)/\<close>: group 1 is the text of
  item 0, group 2 that of item 4.\<close>

definition remotePattern :: "item list" where
  "remotePattern =
     [Rep isWord 1 True, Rep isWhiteSpace 1 True, Rep isDot 0 True, One isColonOrSlash,
      Rep notSlash 1 True, Lit ''/'', Rep notSlashSpace 1 False, Opt ''.git'',
      Rep isWhiteSpace 1 True, Lit ''(fetch)'']"

text \<open>\<open>/[:/]([^/]+\/[^/\s]+?)(?:\.git)?\s+\(fetch\)/\<close>: group 1 is the text of items
  1, 2 and 3.\<close>

definition repoPattern :: "item list" where
  "repoPattern =
     [One isColonOrSlash, Rep notSlash 1 True, Lit ''/'', Rep notSlashSpace 1 False,
      Opt ''.git'', Rep isWhiteSpace 1 True, Lit ''(fetch)'']"

text \<open>The loop over the lines of \<open>git remote -v\<close>.\<close>

record fork =
  upstreamRepo :: "string option"
  originOwner :: "string option"

definition repoOf :: "string \<Rightarrow> string option" where
  "repoOf line =
     (case search repoPattern line of None \<Rightarrow> None
      | Some g \<Rightarrow> (let r = g ! 1 @ g ! 2 @ g ! 3 in if r = [] then None else Some r))"

definition scanRemote :: "string \<Rightarrow> fork \<Rightarrow> fork" where
  "scanRemote line st =
     (case matchHere remotePattern line of None \<Rightarrow> st
      | Some m \<Rightarrow>
          (let remoteName = m ! 0; owner = m ! 4
           in if remoteName = ''upstream'' then st\<lparr>upstreamRepo := repoOf line\<rparr>
              else if remoteName = ''origin'' then st\<lparr>originOwner := Some owner\<rparr>
              else st))"

definition parseRemotes :: "string \<Rightarrow> fork" where
  "parseRemotes remotes =
     fold scanRemote (split (CHR 0x0A) remotes) \<lparr>upstreamRepo = None, originOwner = None\<rparr>"

text \<open>The repository name a URL's last segment stands for: without a final \<open>.git\<close>,
  unless nothing would be left.\<close>

definition stripGit :: "string \<Rightarrow> string" where
  "stripGit tok =
     (if 4 < length tok \<and> drop (length tok - 4) tok = ''.git'' then take (length tok - 4) tok
      else tok)"

definition gitSuffix :: "string \<Rightarrow> string" where
  "gitSuffix tok =
     (if 4 < length tok \<and> drop (length tok - 4) tok = ''.git'' then ''.git'' else [])"

section \<open>Publication pipeline: \<open>createCreatePRHandler\<close>\<close>

record pr_request =
  rq_worktreePath :: "string option"
  rq_commitMessage :: "string option"
  rq_prTitle :: "string option"
  rq_prBody :: "string option"
  rq_baseBranch :: "string option"
  rq_draft :: "bool option"

record publication =
  branch :: string
  committed :: bool
  commitHash :: "string option"
  pushed :: bool
  prUrl :: "string option"
  prCreated :: bool
  prError :: "string option"

text \<open>Every command of this handler runs with the extended \<open>PATH\<close>; all but the probe
  for the hosting CLI run in the worktree.\<close>

definition inWorktreeEnv :: "string \<Rightarrow> exec_options" where
  "inWorktreeEnv dir = \<lparr>cwd = Some dir, extendedPath = True\<rparr>"

definition envOnly :: exec_options where
  "envOnly = \<lparr>cwd = None, extendedPath = True\<rparr>"

definition quoted :: "string \<Rightarrow> string" where
  "quoted s = [CHR 0x22] @ s @ [CHR 0x22]"

text \<open>Staging, committing and reading the short hash, when there are changes.\<close>

definition commitCmd :: "string \<Rightarrow> string" where
  "commitCmd msg = ''git commit -m '' @ quoted (escapeQuotes msg)"

definition commitChanges ::
  "'w system \<Rightarrow> string \<Rightarrow> string \<Rightarrow> string option \<Rightarrow> bool \<Rightarrow> ('w, string option) action" where
  "commitChanges sys dir branchName commitMessage changed =
     (if changed
      then andThen (execAsync sys ''git add -A'' (inWorktreeEnv dir)) (\<lambda>_.
           andThen (execAsync sys
                      (commitCmd (orElse commitMessage (''Changes from '' @ branchName)))
                      (inWorktreeEnv dir)) (\<lambda>_.
           andThen (execAsync sys ''git rev-parse HEAD'' (inWorktreeEnv dir)) (\<lambda>hashOutput.
           yield (Some (take 8 (trim hashOutput))))))
      else yield None)"

text \<open>The push and its retry; the result is \<open>pushError\<close>.\<close>

definition pushCmd :: "string \<Rightarrow> string" where
  "pushCmd branchName = ''git push -u origin '' @ branchName"

definition pushUpstreamCmd :: "string \<Rightarrow> string" where
  "pushUpstreamCmd branchName = ''git push --set-upstream origin '' @ branchName"

definition pushBranch :: "'w system \<Rightarrow> string \<Rightarrow> string \<Rightarrow> ('w, string option) action" where
  "pushBranch sys dir branchName =
     tryCatch
       (andThen (execAsync sys (pushCmd branchName) (inWorktreeEnv dir)) (\<lambda>_. yield None))
       (\<lambda>_. tryCatch
               (andThen (execAsync sys (pushUpstreamCmd branchName) (inWorktreeEnv dir))
                  (\<lambda>_. yield None))
               (\<lambda>error2. yield (Some (describe error2 ''Push failed''))))"

text \<open>Reading the remotes, in a \<open>try\<close> of its own.\<close>

definition detectFork :: "'w system \<Rightarrow> string \<Rightarrow> ('w, fork) action" where
  "detectFork sys dir =
     tryCatch
       (andThen (execAsync sys ''git remote -v'' (inWorktreeEnv dir)) (\<lambda>remotes.
          yield (parseRemotes remotes)))
       (\<lambda>_. yield \<lparr>upstreamRepo = None, originOwner = None\<rparr>)"

text \<open>The \<open>gh pr create\<close> command line.\<close>

definition headArguments :: "fork \<Rightarrow> string \<Rightarrow> string" where
  "headArguments fk branchName =
     (if truthy (upstreamRepo fk) \<and> truthy (originOwner fk)
      then '' --repo '' @ quoted (the (upstreamRepo fk)) @ '' --head ''
             @ quoted (the (originOwner fk) @ '':'' @ branchName)
      else '' --head '' @ quoted branchName)"

definition prCmd :: "string \<Rightarrow> fork \<Rightarrow> string \<Rightarrow> string \<Rightarrow> string \<Rightarrow> string \<Rightarrow> string" where
  "prCmd base fk branchName title body draftFlag =
     trim (''gh pr create --base '' @ quoted base @ headArguments fk branchName
             @ '' --title '' @ quoted (escapeQuotes title)
             @ '' --body '' @ quoted (escapeQuotes body) @ '' '' @ draftFlag)"

text \<open>The guarded PR step: the probe for the hosting CLI, the fork detection and the
  PR command; the result is \<open>(prUrl, prError)\<close>.\<close>

definition createPullRequest ::
  "'w system \<Rightarrow> pr_request \<Rightarrow> string \<Rightarrow> string \<Rightarrow> ('w, string option \<times> string option) action" where
  "createPullRequest sys body dir branchName =
     (let base = orElse (rq_baseBranch body) ''main'';
          title = orElse (rq_prTitle body) branchName;
          text = orElse (rq_prBody body) (''Changes from branch '' @ branchName);
          draftFlag = (if rq_draft body = Some True then ''--draft'' else [])
      in tryCatch
           (andThen (execAsync sys ''command -v gh'' envOnly) (\<lambda>_.
            andThen (detectFork sys dir) (\<lambda>fk.
            andThen (execAsync sys (prCmd base fk branchName title text draftFlag)
                       (inWorktreeEnv dir)) (\<lambda>prOutput.
            yield (Some (trim prOutput), None)))))
           (\<lambda>ghError. yield (None, Some (describe ghError ''PR creation failed''))))"

definition orUndefined :: "string option \<Rightarrow> string option" where
  "orUndefined v = (if truthy v then v else None)"

definition createPRHandler ::
  "'w system \<Rightarrow> pr_request \<Rightarrow> 'w state \<Rightarrow> publication response \<times> 'w state" where
  "createPRHandler sys body =
     handler sys
       (if \<not> truthy (rq_worktreePath body) then yield (Failure 400 ''worktreePath required'')
        else
          let dir = the (rq_worktreePath body)
          in andThen (execAsync sys ''git rev-parse --abbrev-ref HEAD'' (inWorktreeEnv dir))
               (\<lambda>branchOutput.
             let branchName = trim branchOutput
             in andThen (execAsync sys ''git status --porcelain'' (inWorktreeEnv dir))
                  (\<lambda>statusOutput.
                let changed = (0 < length (trim statusOutput))
                in andThen (commitChanges sys dir branchName (rq_commitMessage body) changed)
                     (\<lambda>hash.
                   andThen (pushBranch sys dir branchName) (\<lambda>pushError.
                   if truthy pushError
                   then yield (Failure 500 (''Failed to push branch: '' @ the pushError))
                   else andThen (createPullRequest sys body dir branchName) (\<lambda>(url, err).
                        yield (Success
                          \<lparr>branch = branchName, committed = changed, commitHash = hash,
                           pushed = True, prUrl = url, prCreated = truthy url,
                           prError = orUndefined err\<rparr>)))))))"

text \<open>Reading a run off its log: the commands this run added, which of them push, which
  create the PR, and whether a command succeeded.\<close>

definition since :: "'w state \<Rightarrow> 'w state \<Rightarrow> invocation list" where
  "since s s' = drop (length (snd s)) (snd s')"

definition succeeded :: "invocation \<Rightarrow> bool" where
  "succeeded i = (case outcome i of Inl _ \<Rightarrow> False | Inr _ \<Rightarrow> True)"

definition isPlainPush :: "invocation \<Rightarrow> bool" where
  "isPlainPush i = startsWith (command i) ''git push -u origin ''"

definition isUpstreamPush :: "invocation \<Rightarrow> bool" where
  "isUpstreamPush i = startsWith (command i) ''git push --set-upstream origin ''"

definition isPush :: "invocation \<Rightarrow> bool" where
  "isPush i = (isPlainPush i \<or> isUpstreamPush i)"

definition isPrCommand :: "invocation \<Rightarrow> bool" where
  "isPrCommand i = startsWith (command i) ''gh pr create''"

definition isProbe :: "invocation \<Rightarrow> bool" where
  "isProbe i = (command i = ''command -v gh'')"

text \<open>The commands the handler runs before it pushes.\<close>

definition preCommand :: "string \<Rightarrow> bool" where
  "preCommand c =
     (c = ''git rev-parse --abbrev-ref HEAD'' \<or> c = ''git status --porcelain'' \<or>
      c = ''git add -A'' \<or> startsWith c ''git commit -m '' \<or> c = ''git rev-parse HEAD'')"

definition invoked :: "string \<Rightarrow> exec_options \<Rightarrow> failure + string \<Rightarrow> invocation" where
  "invoked c opts r = \<lparr>command = c, options = opts, outcome = r\<rparr>"

text \<open>The arguments of the PR command as the handler derives them from the request.\<close>

definition requestedPrCmd :: "pr_request \<Rightarrow> fork \<Rightarrow> string \<Rightarrow> string" where
  "requestedPrCmd body fk branchName =
     prCmd (orElse (rq_baseBranch body) ''main'') fk branchName
       (orElse (rq_prTitle body) branchName)
       (orElse (rq_prBody body) (''Changes from branch '' @ branchName))
       (if rq_draft body = Some True then ''--draft'' else [])"

text \<open>What the fork detection yields from the outcome of \<open>git remote -v\<close>.\<close>

definition forkOf :: "failure + string \<Rightarrow> fork" where
  "forkOf r =
     (case r of Inl _ \<Rightarrow> \<lparr>upstreamRepo = None, originOwner = None\<rparr>
      | Inr remotes \<Rightarrow> parseRemotes remotes)"

text \<open>Systems for the concrete runs of the publication: a worktree on branch
  \<open>feature-x\<close> with one modified file, in a fork (\<open>origin\<close> owned by \<open>alice\<close>,
  \<open>upstream\<close> at \<open>org/repo\<close>).  The plain push fails for want of an upstream; the
  three switches say whether the retry succeeds, whether the hosting CLI is installed,
  and whether it creates the PR.\<close>

definition forkRemotes :: string where
  "forkRemotes =
     ''origin'' @ [CHR 0x09] @ ''git@github.com:alice/repo.git (fetch)'' @ [CHR 0x0A]
     @ ''origin'' @ [CHR 0x09] @ ''git@github.com:alice/repo.git (push)'' @ [CHR 0x0A]
     @ ''upstream'' @ [CHR 0x09] @ ''https://github.com/org/repo.git (fetch)'' @ [CHR 0x0A]
     @ ''upstream'' @ [CHR 0x09] @ ''https://github.com/org/repo.git (push)'' @ [CHR 0x0A]"

definition publishScript :: "bool \<Rightarrow> bool \<Rightarrow> bool \<Rightarrow> string \<Rightarrow> failure + string" where
  "publishScript retryOk ghInstalled prOk cmd =
     (if cmd = ''git rev-parse --abbrev-ref HEAD'' then Inr (''feature-x'' @ [CHR 0x0A])
      else if cmd = ''git status --porcelain'' then Inr ('' M src/app.ts'' @ [CHR 0x0A])
      else if cmd = ''git rev-parse HEAD'' then Inr (''0123456789abcdef0123'' @ [CHR 0x0A])
      else if cmd = ''git push -u origin feature-x''
        then Inl \<lparr>stderr = Some ''fatal: no upstream branch'', message = Some ''Command failed''\<rparr>
      else if cmd = ''git push --set-upstream origin feature-x''
        then (if retryOk then Inr []
              else Inl \<lparr>stderr = Some ''remote: Permission denied'',
                         message = Some ''Command failed''\<rparr>)
      else if cmd = ''command -v gh''
        then (if ghInstalled then Inr (''/usr/local/bin/gh'' @ [CHR 0x0A])
              else Inl \<lparr>stderr = Some [],
                         message = Some (''Command failed: command -v gh'' @ [CHR 0x0A])\<rparr>)
      else if cmd = ''git remote -v'' then Inr forkRemotes
      else if startsWith cmd ''gh pr create''
        then (if prOk then Inr (''https://github.com/org/repo/pull/7'' @ [CHR 0x0A])
              else Inl \<lparr>stderr = Some ''a pull request for branch already exists'',
                         message = Some ''Command failed''\<rparr>)
      else Inr [])"

definition scripted :: "(string \<Rightarrow> failure + string) \<Rightarrow> unit system" where
  "scripted script =
     \<lparr>exec = (\<lambda>cmd opts w. (script cmd, w)),
      isGitRepo = (\<lambda>p w. (Inr True, w)),
      fsMkdir = (\<lambda>p w. (Inr (), w)),
      fsAccess = (\<lambda>p w. (Inr (), w)),
      fsSymlink = (\<lambda>a b t w. (Inr (), w)),
      pathJoin = (\<lambda>a b. a @ ''/'' @ b),
      platform = ''linux'',
      number = (\<lambda>s. None),
      getErrorMessage = (\<lambda>e. orElse (message e) ''Unknown error'')\<rparr>"

definition publishRequest :: pr_request where
  "publishRequest =
     \<lparr>rq_worktreePath = Some ''/repo/.worktrees/x'', rq_commitMessage = None,
      rq_prTitle = Some ''Add login'', rq_prBody = None, rq_baseBranch = None,
      rq_draft = None\<rparr>"

section \<open>The listing of the remotes\<close>

text \<open>
  What \<open>git remote -v\<close> prints for remotes given by name and URL: a fetch line and a push
  line for each, the name and the URL separated by a tab, a line feed after every line.
\<close>

definition fetchLine :: "string \<Rightarrow> string \<Rightarrow> string" where
  "fetchLine name url = name @ [CHR 0x09] @ url @ '' (fetch)''"

definition pushLine :: "string \<Rightarrow> string \<Rightarrow> string" where
  "pushLine name url = name @ [CHR 0x09] @ url @ '' (push)''"

definition remoteLines :: "string \<times> string \<Rightarrow> string list" where
  "remoteLines r = [fetchLine (fst r) (snd r), pushLine (fst r) (snd r)]"

definition listing :: "(string \<times> string) list \<Rightarrow> string" where
  "listing rs = concat (map (\<lambda>l. l @ [CHR 0x0A]) (concat (map remoteLines rs)))"

text \<open>Names and URLs are written without white space.\<close>

definition plain :: "string \<Rightarrow> bool" where
  "plain s = list_all (\<lambda>c. \<not> isWhiteSpace c) s"

text \<open>A URL that ends in an owner and a repository: \<open>lead\<close>, a colon or a slash, the
  owner, a slash, and the last segment, as in \<open>git@github.com:owner/repo.git\<close> and
  \<open>https://github.com/owner/repo\<close>.  The owner holds no colon or slash, the last
  segment no slash.\<close>

definition hostedUrl :: "string \<Rightarrow> char \<Rightarrow> string \<Rightarrow> string \<Rightarrow> string" where
  "hostedUrl lead sep own seg = lead @ sep # own @ ''/'' @ seg"

definition hosted :: "string \<Rightarrow> char \<Rightarrow> string \<Rightarrow> string \<Rightarrow> bool" where
  "hosted lead sep own seg =
     (plain lead \<and> isColonOrSlash sep \<and> own \<noteq> [] \<and> plain own \<and>
      list_all (\<lambda>c. \<not> isColonOrSlash c) own \<and> seg \<noteq> [] \<and> list_all notSlashSpace seg)"

text \<open>The separator before the owner is the first place of the URL where the repository
  pattern can start: it is a slash, or no colon or slash comes before it.\<close>

definition anchored :: "string \<Rightarrow> char \<Rightarrow> bool" where
  "anchored lead sep = (sep = CHR ''/'' \<or> list_all (\<lambda>c. \<not> isColonOrSlash c) lead)"

text \<open>Runs with other remotes: a script with another answer to \<open>git remote -v\<close>, and
  the remotes of a fork whose \<open>upstream\<close> URL ends in a slash.\<close>

definition withRemotes ::
  "string \<Rightarrow> (string \<Rightarrow> failure + string) \<Rightarrow> string \<Rightarrow> failure + string" where
  "withRemotes remotes script cmd = (if cmd = ''git remote -v'' then Inr remotes else script cmd)"

definition slashRemotes :: string where
  "slashRemotes =
     ''origin'' @ [CHR 0x09] @ ''git@github.com:alice/repo.git (fetch)'' @ [CHR 0x0A]
     @ ''origin'' @ [CHR 0x09] @ ''git@github.com:alice/repo.git (push)'' @ [CHR 0x0A]
     @ ''upstream'' @ [CHR 0x09] @ ''https://github.com/org/repo/ (fetch)'' @ [CHR 0x0A]
     @ ''upstream'' @ [CHR 0x09] @ ''https://github.com/org/repo/ (push)'' @ [CHR 0x0A]"

section \<open>Handlers: stepping through a run\<close>



lemma yield_eq [simp]: "yield a s = (r, s') \<longleftrightarrow> r = Inr a \<and> s' = s"
  by (auto simp: yield_def)

lemma execAsync_log:
  "execAsync sys c opts s = (r, s') \<Longrightarrow>
   snd s' = snd s @ [\<lparr>command = c, options = opts, outcome = r\<rparr>]"
  by (auto simp: execAsync_def split: prod.splits)




lemma startsWith_iff: "startsWith s p \<longleftrightarrow> (\<exists>t. s = p @ t)"
  unfolding startsWith_def by (metis append_eq_conv_conj append_take_drop_id)

section \<open>Board projector: properties\<close>

lemma place_target:
  "place r f m = (case target r f of None \<Rightarrow> Inl TypeError | Some c \<Rightarrow> Inr (push c f m))"
  by (simp add: place_def target_def split: property.splits)

lemma column_push:
  "column c (push d f m) = (if c = d then column c m @ [f] else column c m)"
  by (cases c; cases d; simp)

lemma forEach_place_Cons:
  "forEach (place r) (f # fs) m =
     (case target r f of None \<Rightarrow> Inl TypeError
      | Some c \<Rightarrow> forEach (place r) fs (push c f m))"
  by (cases "target r f") (simp_all add: place_target [of r f m])

lemma forEach_place_columns:
  "forEach (place r) fs m = Inr m' \<Longrightarrow>
   column c m' = column c m @ filter (\<lambda>f. target r f = Some c) fs"
proof (induction fs arbitrary: m)
  case Nil
  then show ?case by simp
next
  case (Cons f fs)
  show ?case
  proof (cases "target r f")
    case None
    with Cons.prems show ?thesis by (simp add: forEach_place_Cons del: forEach.simps)
  next
    case (Some d)
    with Cons.prems have "forEach (place r) fs (push d f m) = Inr m'"
      by (simp add: forEach_place_Cons del: forEach.simps)
    from Cons.IH [OF this] Some show ?thesis
      by (simp add: column_push)
  qed
qed

lemma forEach_place_returns:
  "(\<exists>m'. forEach (place r) fs m = Inr m') \<longleftrightarrow> (\<forall>f \<in> set fs. target r f \<noteq> None)"
proof (induction fs arbitrary: m)
  case Nil
  then show ?case by simp
next
  case (Cons f fs)
  then show ?case
    by (cases "target r f") (simp_all add: forEach_place_Cons del: forEach.simps)
qed

lemma set_filteredFeatures:
  "set (filteredFeatures fs q cw) = {f \<in> set fs. passesQuery q f \<and> inWorktree cw f}"
  by (auto simp: filteredFeatures_def passesQuery_def Let_def)

lemma columnFeaturesMap_column:
  assumes "columnFeaturesMap fs r q cw = Inr m"
  shows "mset (column c m) =
         mset (filter (\<lambda>f. target r f = Some c) (filteredFeatures fs q cw))"
proof -
  from assms obtain m0
    where m0: "forEach (place r) (filteredFeatures fs q cw) emptyColumns = Inr m0"
      and m: "m = m0\<lparr>backlog := sort_key priorityKey (backlog m0)\<rparr>"
    by (auto simp: columnFeaturesMap_def split: sum.splits)
  have "column c m0 = filter (\<lambda>f. target r f = Some c) (filteredFeatures fs q cw)"
    using forEach_place_columns [OF m0, of c] by (cases c) (simp_all add: emptyColumns_def)
  moreover have "mset (column c m) = mset (column c m0)"
    by (cases c) (simp_all add: m)
  ultimately show ?thesis by simp
qed

lemma set_column:
  assumes "columnFeaturesMap fs r q cw = Inr m"
  shows "set (column c m) = {f \<in> set (filteredFeatures fs q cw). target r f = Some c}"
proof -
  have "set (column c m) = set_mset (mset (column c m))" by simp
  also have "\<dots> = {f \<in> set (filteredFeatures fs q cw). target r f = Some c}"
    unfolding columnFeaturesMap_column [OF assms] by simp
  finally show ?thesis .
qed

lemma target_None_iff:
  "target r f = None \<longleftrightarrow> id_of f \<notin> set r \<and> getProperty (status f) = Inherited"
  by (simp add: target_def split: property.splits)

text \<open>The projection returns columns unless a retained feature that is not running has
  a status naming an inherited property; then \<open>map[status].push\<close> is not a function.\<close>

lemma columnFeaturesMap_returns:
  "(\<exists>m. columnFeaturesMap fs r q cw = Inr m) \<longleftrightarrow>
   (\<forall>f \<in> set (filteredFeatures fs q cw). target r f \<noteq> None)"
proof -
  have "(\<exists>m. columnFeaturesMap fs r q cw = Inr m) \<longleftrightarrow>
        (\<exists>m0. forEach (place r) (filteredFeatures fs q cw) emptyColumns = Inr m0)"
    by (auto simp: columnFeaturesMap_def split: sum.splits)
  then show ?thesis by (simp add: forEach_place_returns)
qed

lemma columnFeaturesMap_throws:
  assumes "columnFeaturesMap fs r q cw = Inl e"
  shows "\<exists>g \<in> set (filteredFeatures fs q cw).
           id_of g \<notin> set r \<and> getProperty (status g) = Inherited"
proof -
  from assms have "\<not> (\<exists>m. columnFeaturesMap fs r q cw = Inr m)" by simp
  then show ?thesis
    unfolding columnFeaturesMap_returns by (simp add: target_None_iff)
qed

lemma five_way_split:
  fixes t :: "'a \<Rightarrow> column_id option"
  assumes "\<forall>x \<in> set xs. t x \<noteq> None"
  shows "mset (filter (\<lambda>x. t x = Some Backlog) xs) +
         mset (filter (\<lambda>x. t x = Some In_progress) xs) +
         mset (filter (\<lambda>x. t x = Some Waiting_approval) xs) +
         mset (filter (\<lambda>x. t x = Some Verified) xs) +
         mset (filter (\<lambda>x. t x = Some Completed) xs) = mset xs"
  using assms
proof (induction xs)
  case Nil
  then show ?case by simp
next
  case (Cons a xs)
  then obtain c where c: "t a = Some c" by auto
  from Cons have IH: "mset (filter (\<lambda>x. t x = Some Backlog) xs) +
         mset (filter (\<lambda>x. t x = Some In_progress) xs) +
         mset (filter (\<lambda>x. t x = Some Waiting_approval) xs) +
         mset (filter (\<lambda>x. t x = Some Verified) xs) +
         mset (filter (\<lambda>x. t x = Some Completed) xs) = mset xs" by simp
  from IH show ?case
    by (cases c) (simp_all add: c)
qed

text \<open>Whenever the projection returns, its five columns hold the retained features,
  each as often as the filters kept it.\<close>

lemma columnFeaturesMap_partition:
  assumes "columnFeaturesMap fs r q cw = Inr m"
  shows "mset (allColumns m) = mset (filteredFeatures fs q cw)"
proof -
  let ?F = "filteredFeatures fs q cw"
  from assms have ok: "\<forall>f \<in> set ?F. target r f \<noteq> None"
    using columnFeaturesMap_returns by blast
  have "mset (allColumns m) = mset (column Backlog m) + mset (column In_progress m) +
      mset (column Waiting_approval m) + mset (column Verified m) + mset (column Completed m)"
    by (simp add: allColumns_def)
  also have "\<dots> = mset ?F"
    unfolding columnFeaturesMap_column [OF assms] by (rule five_way_split [OF ok])
  finally show ?thesis .
qed

lemma set_allColumns:
  assumes "columnFeaturesMap fs r q cw = Inr m"
  shows "set (allColumns m) = {f \<in> set fs. passesQuery q f \<and> inWorktree cw f}"
proof -
  have "set (allColumns m) = set_mset (mset (allColumns m))" by simp
  also have "\<dots> = set (filteredFeatures fs q cw)"
    unfolding columnFeaturesMap_partition [OF assms] by simp
  finally show ?thesis by (simp add: set_filteredFeatures)
qed

text \<open>The text filter lowers the Latin-1 capitals too.\<close>

lemma toLowerCase_latin1:
  "toLowerCase [CHR ''Z'', CHR 0xC9, CHR 0xD7, CHR 0xDE, CHR 0xDF] =
     [CHR ''z'', CHR 0xE9, CHR 0xD7, CHR 0xFE, CHR 0xDF]"
  "passesQuery [CHR ''c'', CHR ''a'', CHR ''f'', CHR 0xE9] featMenu"
  by code_simp+

text \<open>
  Retention by worktree, for every projection that returns.  Among the features the
  text filter keeps, one without a worktree path (absent or empty, the source's test
  \<open>!f.worktreePath\<close>) is in the projected columns under every selection, and one with a
  worktree path is in them exactly when the selection is that path: neither under
  another path nor under the main selection \<^term>\<open>None\<close>.  The projection yields
  columns unless a retained feature that is not running has a status naming an
  inherited property.
\<close>

theorem worktree_scope_retention:
  assumes "f \<in> set features" and "passesQuery searchQuery f"
  shows "case columnFeaturesMap features runningAutoTasks searchQuery currentWorktree of
           Inl e \<Rightarrow> (\<exists>g \<in> set (filteredFeatures features searchQuery currentWorktree).
                       id_of g \<notin> set runningAutoTasks \<and> getProperty (status g) = Inherited)
         | Inr m \<Rightarrow>
             (\<not> truthy (worktreePath f) \<longrightarrow> f \<in> set (allColumns m)) \<and>
             (truthy (worktreePath f) \<longrightarrow>
                (f \<in> set (allColumns m) \<longleftrightarrow> currentWorktree = worktreePath f))"
proof (cases "columnFeaturesMap features runningAutoTasks searchQuery currentWorktree")
  case (Inl e)
  then show ?thesis using columnFeaturesMap_throws [OF Inl] by simp
next
  case (Inr m)
  have "f \<in> set (allColumns m) \<longleftrightarrow> inWorktree currentWorktree f"
    using assms by (simp add: set_allColumns [OF Inr])
  then show ?thesis
    using Inr by (auto simp: inWorktree_def truthy_def split: option.splits)
qed

theorem worktree_scope_retention_example:
  "featScoped \<in> set [featLogin, featScoped] \<and> passesQuery '' LOGIN '' featScoped \<and>
   columnFeaturesMap [featLogin, featScoped] [] '' LOGIN '' None
     = Inr \<lparr>backlog = [], in_progress = [], waiting_approval = [], verified = [],
         completed = [featLogin]\<rparr> \<and>
   columnFeaturesMap [featLogin, featScoped] [] '' LOGIN '' (Some ''/repo/.worktrees/audit'')
     = Inr \<lparr>backlog = [], in_progress = [], waiting_approval = [], verified = [featScoped],
         completed = [featLogin]\<rparr> \<and>
   truthy (worktreePath featScoped) \<and> featScoped \<notin> set [featLogin]"
proof -
  have h1: "featScoped \<in> set [featLogin, featScoped]" by simp
  have h2: "passesQuery '' LOGIN '' featScoped" by code_simp
  have r1: "columnFeaturesMap [featLogin, featScoped] [] '' LOGIN '' None
     = Inr \<lparr>backlog = [], in_progress = [], waiting_approval = [], verified = [],
         completed = [featLogin]\<rparr>" by code_simp
  have r2: "columnFeaturesMap [featLogin, featScoped] [] '' LOGIN ''
       (Some ''/repo/.worktrees/audit'')
     = Inr \<lparr>backlog = [], in_progress = [], waiting_approval = [], verified = [featScoped],
         completed = [featLogin]\<rparr>" by code_simp
  have t: "truthy (worktreePath featScoped)" by code_simp
  have "featScoped \<notin> set [featLogin]"
    using worktree_scope_retention
      [OF h1 h2, where runningAutoTasks = "[]" and currentWorktree = None] t
    by (auto simp: r1 allColumns_def truthy_def)
  with h1 h2 r1 r2 t show ?thesis by simp
qed

text \<open>
  C3.  The claim: for every feature list the projection retains a feature without a
  worktree path under every selection.  The source says the same (\<open>Backlog features
  (no worktreePath) should always be visible\<close>), and \<open>worktree_scope_retention\<close> shows it
  for every projection that returns.  But the loop that fills the columns throws when a
  retained feature that is not running has a status naming an inherited property (the
  test \<open>if (map[status])\<close> is true for it and \<open>push\<close> is not a function): beside such a
  feature, a feature without a worktree path that passes the text filter is in no column,
  under the main selection and under a path alike, though alone it is retained.
\<close>

theorem unscoped_feature_lost:
  "featLogin \<in> set [featLogin, featOdd] \<and> worktreePath featLogin = None \<and>
   passesQuery [] featLogin \<and>
   columnFeaturesMap [featLogin, featOdd] [] [] None = Inl TypeError \<and>
   columnFeaturesMap [featLogin, featOdd] [] [] (Some ''/repo/.worktrees/audit'')
     = Inl TypeError \<and>
   columnFeaturesMap [featLogin] [] [] None
     = Inr \<lparr>backlog = [], in_progress = [], waiting_approval = [], verified = [],
         completed = [featLogin]\<rparr>"
proof -
  have "featLogin \<in> set [featLogin, featOdd]" by simp
  moreover have "worktreePath featLogin = None" by code_simp
  moreover have "passesQuery [] featLogin" by code_simp
  moreover have "columnFeaturesMap [featLogin, featOdd] [] [] None = Inl TypeError"
    by code_simp
  moreover have "columnFeaturesMap [featLogin, featOdd] [] [] (Some ''/repo/.worktrees/audit'')
     = Inl TypeError" by code_simp
  moreover have "columnFeaturesMap [featLogin] [] [] None
     = Inr \<lparr>backlog = [], in_progress = [], waiting_approval = [], verified = [],
         completed = [featLogin]\<rparr>" by code_simp
  ultimately show ?thesis by simp
qed

text \<open>
  Running features, for every projection that returns.  A feature that passes the text
  and worktree filters and whose id is among the running tasks is in the
  \<open>in_progress\<close> column of the projection and in no other, whatever its stored status.
  The projection yields columns unless a retained feature that is not running has a
  status naming an inherited property.
\<close>

theorem running_feature_in_progress:
  assumes "f \<in> set features" and "passesQuery searchQuery f"
    and "inWorktree currentWorktree f" and "id_of f \<in> set runningAutoTasks"
  shows "case columnFeaturesMap features runningAutoTasks searchQuery currentWorktree of
           Inl e \<Rightarrow> (\<exists>g \<in> set (filteredFeatures features searchQuery currentWorktree).
                       id_of g \<notin> set runningAutoTasks \<and> getProperty (status g) = Inherited)
         | Inr m \<Rightarrow>
             f \<in> set (in_progress m) \<and> f \<notin> set (backlog m) \<and>
             f \<notin> set (waiting_approval m) \<and> f \<notin> set (verified m) \<and>
             f \<notin> set (completed m)"
proof (cases "columnFeaturesMap features runningAutoTasks searchQuery currentWorktree")
  case (Inl e)
  then show ?thesis using columnFeaturesMap_throws [OF Inl] by simp
next
  case (Inr m)
  have F: "f \<in> set (filteredFeatures features searchQuery currentWorktree)"
    using assms by (simp add: set_filteredFeatures)
  have t: "target runningAutoTasks f = Some In_progress"
    using assms(4) by (simp add: target_def)
  have col: "f \<in> set (column c m) \<longleftrightarrow> c = In_progress" for c
    unfolding set_column [OF Inr] using F t by auto
  from col [of Backlog] col [of In_progress] col [of Waiting_approval] col [of Verified]
    col [of Completed]
  show ?thesis using Inr by simp
qed

theorem running_feature_in_progress_example:
  "featLogin \<in> set [featLogin, featScoped] \<and> passesQuery ''login'' featLogin \<and>
   inWorktree None featLogin \<and> id_of featLogin \<in> set [''user-login''] \<and>
   status featLogin = ''completed'' \<and>
   columnFeaturesMap [featLogin, featScoped] [''user-login''] ''login'' None
     = Inr \<lparr>backlog = [], in_progress = [featLogin], waiting_approval = [], verified = [],
         completed = []\<rparr> \<and>
   featLogin \<in> set [featLogin]"
proof -
  have h1: "featLogin \<in> set [featLogin, featScoped]" by simp
  have h2: "passesQuery ''login'' featLogin" by code_simp
  have h3: "inWorktree None featLogin" by code_simp
  have h4: "id_of featLogin \<in> set [''user-login'']" by code_simp
  have s: "status featLogin = ''completed''" by code_simp
  have r: "columnFeaturesMap [featLogin, featScoped] [''user-login''] ''login'' None
     = Inr \<lparr>backlog = [], in_progress = [featLogin], waiting_approval = [], verified = [],
         completed = []\<rparr>" by code_simp
  have "featLogin \<in> set [featLogin]"
    using running_feature_in_progress [OF h1 h2 h3 h4] by (simp add: r)
  with h1 h2 h3 h4 s r show ?thesis by simp
qed

text \<open>
  C4.  The claim: every feature that passes the filters and whose id is among the running
  tasks is placed in \<open>in_progress\<close>.  The source says the same (\<open>If feature has a
  running agent, always show it in "in_progress"\<close>), and \<open>running_feature_in_progress\<close>
  shows it for every projection that returns.  But the loop that fills the columns throws
  when another retained feature, one that is not running, has a status naming an
  inherited property: then the running feature is in no column, though alone it is in
  \<open>in_progress\<close> whatever its stored status.
\<close>

theorem running_feature_lost:
  "featLogin \<in> set [featLogin, featOdd] \<and> passesQuery [] featLogin \<and>
   inWorktree None featLogin \<and> id_of featLogin \<in> set [''user-login''] \<and>
   status featLogin = ''completed'' \<and>
   columnFeaturesMap [featLogin, featOdd] [''user-login''] [] None = Inl TypeError \<and>
   columnFeaturesMap [featLogin] [''user-login''] [] None
     = Inr \<lparr>backlog = [], in_progress = [featLogin], waiting_approval = [], verified = [],
         completed = []\<rparr>"
proof -
  have "featLogin \<in> set [featLogin, featOdd]" by simp
  moreover have "passesQuery [] featLogin" by code_simp
  moreover have "inWorktree None featLogin" by code_simp
  moreover have "id_of featLogin \<in> set [''user-login'']" by code_simp
  moreover have "status featLogin = ''completed''" by code_simp
  moreover have "columnFeaturesMap [featLogin, featOdd] [''user-login''] [] None
     = Inl TypeError" by code_simp
  moreover have "columnFeaturesMap [featLogin] [''user-login''] [] None
     = Inr \<lparr>backlog = [], in_progress = [featLogin], waiting_approval = [], verified = [],
         completed = []\<rparr>" by code_simp
  ultimately show ?thesis by simp
qed

text \<open>
  C10.  The claim: for every input the five columns partition the retained features, a
  feature that is not running and has an unrecognised status going to the backlog.
  The loop's own comment says so, and \<open>columnFeaturesMap_partition\<close> shows the
  partition for every projection that returns.  But the test \<open>if (map[status])\<close> is
  also true for a status that names a property inherited from the object prototype:
  for the status \<open>constructor\<close> the feature is not placed in the backlog, the call of
  \<open>push\<close> throws and no column is produced at all.
\<close>

theorem inherited_status_throws:
  "status featOdd = ''constructor'' \<and>
   columnFeaturesMap [featOdd] [] [] None = Inl TypeError"
  by code_simp

section \<open>Isolation registry: creating a worktree\<close>






section \<open>Isolation registry: listing the worktrees\<close>

lemma startsWith_disjoint: "startsWith l ''worktree '' \<Longrightarrow> \<not> startsWith l ''branch ''"
  by (cases l) (auto simp: startsWith_def)

lemma replaceFirst_empty:
  "pat \<noteq> [] \<Longrightarrow> replaceFirst pat [] s = [] \<longleftrightarrow> s = [] \<or> s = pat"
proof (induction s)
  case Nil
  then show ?case by auto
next
  case (Cons c s)
  have "drop (length pat) (c # s) = [] \<and> take (length pat) (c # s) = pat \<longleftrightarrow> c # s = pat"
    by (metis append_Nil2 append_take_drop_id drop_all order_refl take_all)
  then show ?case by auto
qed

lemma fold_block_worktrees:
  "[] \<notin> set b \<Longrightarrow> worktrees (fold parseLine b st) = worktrees st"
  by (induction b arbitrary: st) (auto simp: parseLine_def)

lemma fold_block_isFirst:
  "[] \<notin> set b \<Longrightarrow> isFirst (fold parseLine b st) = isFirst st"
  by (induction b arbitrary: st) (auto simp: parseLine_def)

lemma fold_block_path:
  "[] \<notin> set b \<Longrightarrow> current_path (fold parseLine b st) =
     (if blockPaths b = [] then current_path st else Some (last (blockPaths b)))"
proof (induction b arbitrary: st)
  case Nil
  then show ?case by (simp add: blockPaths_def)
next
  case (Cons l b)
  then show ?case by (auto simp: parseLine_def blockPaths_def)
qed

lemma fold_block_branch:
  "[] \<notin> set b \<Longrightarrow> current_branch (fold parseLine b st) =
     (if blockRefs b = [] then current_branch st
      else Some (replaceFirst ''refs/heads/'' [] (last (blockRefs b))))"
proof (induction b arbitrary: st)
  case Nil
  then show ?case by (simp add: blockRefs_def)
next
  case (Cons l b)
  then show ?case by (auto simp: parseLine_def blockRefs_def dest: startsWith_disjoint)
qed

lemma fold_wellFormedBlock:
  assumes "wellFormedBlock b"
  shows "fold parseLine (b @ [[]]) st =
           \<lparr>worktrees = worktrees st @ [blockEntry (isFirst st) b], current_path = None,
            current_branch = None, isFirst = False\<rparr>"
proof -
  from assms have ne: "[] \<notin> set b" by (simp add: wellFormedBlock_def)
  from assms obtain p where p: "blockPaths b = [p]" "p \<noteq> []"
    by (auto simp: wellFormedBlock_def split: list.splits)
  from assms obtain r where r: "blockRefs b = [r]" "r \<noteq> []" "r \<noteq> ''refs/heads/''"
    by (auto simp: wellFormedBlock_def split: list.splits)
  have rr: "replaceFirst ''refs/heads/'' [] r \<noteq> []"
    using r by (simp add: replaceFirst_empty)
  let ?st = "fold parseLine b st"
  have "current_path ?st = Some p" "current_branch ?st = Some (replaceFirst ''refs/heads/'' [] r)"
    "worktrees ?st = worktrees st" "isFirst ?st = isFirst st"
    using p r by (simp_all add: fold_block_path [OF ne] fold_block_branch [OF ne]
        fold_block_worktrees [OF ne] fold_block_isFirst [OF ne])
  then show ?thesis
    using p r rr by (simp add: parseLine_def startsWith_def truthy_def blockEntry_def)
qed

lemma fold_blocks:
  assumes "\<forall>b \<in> set blocks. wellFormedBlock b"
  shows "worktrees (fold parseLine (concat (map (\<lambda>b. b @ [[]]) blocks)) st) =
           worktrees st @ blockEntries (isFirst st) blocks \<and>
         current_path (fold parseLine (concat (map (\<lambda>b. b @ [[]]) blocks)) st) =
           (if blocks = [] then current_path st else None)"
  using assms
proof (induction blocks arbitrary: st)
  case Nil
  then show ?case by simp
next
  case (Cons b blocks)
  then have wf: "wellFormedBlock b" and rest: "\<forall>b \<in> set blocks. wellFormedBlock b" by simp_all
  define st' where "st' = fold parseLine (b @ [[]]) st"
  have step: "fold parseLine (concat (map (\<lambda>b. b @ [[]]) (b # blocks))) st =
      fold parseLine (concat (map (\<lambda>b. b @ [[]]) blocks)) st'"
    by (simp add: st'_def)
  have st: "worktrees st' = worktrees st @ [blockEntry (isFirst st) b]" "isFirst st' = False"
    "current_path st' = None"
    unfolding st'_def fold_wellFormedBlock [OF wf] by simp_all
  show ?case
    unfolding step using Cons.IH [OF rest, of st'] by (simp add: st)
qed

lemma fold_blank_lines:
  "current_path st = None \<Longrightarrow> worktrees (fold parseLine (replicate k []) st) = worktrees st"
proof (induction k arbitrary: st)
  case 0
  then show ?case by simp
next
  case (Suc k)
  have "current_path (parseLine [] st) = None" "worktrees (parseLine [] st) = worktrees st"
    using Suc.prems by (simp_all add: parseLine_def startsWith_def truthy_def)
  with Suc.IH [of "parseLine [] st"] show ?case
    by (simp del: fold_replicate)
qed

lemma parseWorktrees_blocks:
  assumes "split (CHR 0x0A) stdout = concat (map (\<lambda>b. b @ [[]]) blocks) @ replicate k []"
    and "\<forall>b \<in> set blocks. wellFormedBlock b"
  shows "parseWorktrees stdout = blockEntries True blocks"
proof -
  let ?st = "fold parseLine (concat (map (\<lambda>b. b @ [[]]) blocks)) parseStart"
  have st: "worktrees ?st = blockEntries True blocks" "current_path ?st = None"
    using fold_blocks [OF assms(2), of parseStart] by (simp_all add: parseStart_def)
  have "parseWorktrees stdout = worktrees (fold parseLine (replicate k []) ?st)"
    by (simp add: parseWorktrees_def assms(1) del: fold_replicate)
  then show ?thesis
    by (simp add: fold_blank_lines [OF st(2)] st(1) del: fold_replicate)
qed

lemma blockEntries_length: "length (blockEntries first blocks) = length blocks"
  by (induction blocks arbitrary: first) simp_all

lemma blockEntries_nth:
  "i < length blocks \<Longrightarrow>
   blockEntries first blocks ! i = blockEntry (first \<and> i = 0) (blocks ! i)"
proof (induction blocks arbitrary: first i)
  case Nil
  then show ?case by simp
next
  case (Cons b blocks)
  then show ?case by (cases i) simp_all
qed

text \<open>The three outcomes of the details step for one entry.\<close>

lemma withDetails_status_fails:
  assumes "execAsync sys ''git status --porcelain'' (inWorktreeDir wt) s = (Inl e, s1)"
  shows "withDetails sys wt s = (Inr wt, s1)"
  using assms by (simp add: withDetails_def tryCatch_def andThen_def yield_def)

lemma withDetails_revList_fails:
  assumes "execAsync sys ''git status --porcelain'' (inWorktreeDir wt) s = (Inr out, s1)"
    and "execAsync sys (revListCmd wt) (inWorktreeDir wt) s1 = (Inl e, s2)"
  shows "withDetails sys wt s =
     (Inr (wt\<lparr>hasChanges := Some (0 < length (changedFiles out)),
               changedFilesCount := Some (length (changedFiles out)),
               aheadBehind := Some \<lparr>ahead = 0, behind = 0\<rparr>\<rparr>), s2)"
  using assms by (simp add: withDetails_def tryCatch_def andThen_def yield_def Let_def)

lemma withDetails_both_succeed:
  assumes "execAsync sys ''git status --porcelain'' (inWorktreeDir wt) s = (Inr out, s1)"
    and "execAsync sys (revListCmd wt) (inWorktreeDir wt) s1 = (Inr revList, s2)"
  shows "withDetails sys wt s =
     (Inr (wt\<lparr>hasChanges := Some (0 < length (changedFiles out)),
               changedFilesCount := Some (length (changedFiles out)),
               aheadBehind := Some
                 \<lparr>ahead = orZero (map (number sys) (split (CHR 0x09) (trim revList))) 1,
                  behind = orZero (map (number sys) (split (CHR 0x09) (trim revList))) 0\<rparr>\<rparr>),
      s2)"
  using assms by (simp add: withDetails_def tryCatch_def andThen_def yield_def Let_def)

lemma withDetails_returns:
  "\<exists>wt' s'. withDetails sys wt s = (Inr wt', s') \<and> core wt' = core wt"
proof -
  obtain r s1 where 1: "execAsync sys ''git status --porcelain'' (inWorktreeDir wt) s = (r, s1)"
    by (meson surj_pair)
  obtain r2 s2 where 2: "execAsync sys (revListCmd wt) (inWorktreeDir wt) s1 = (r2, s2)"
    by (meson surj_pair)
  show ?thesis
  proof (cases r)
    case (Inl e)
    with 1 show ?thesis by (simp add: withDetails_status_fails)
  next
    case (Inr out)
    with 1 2 show ?thesis
      by (cases r2) (simp_all add: withDetails_revList_fails withDetails_both_succeed core_def)
  qed
qed

lemma forEachEntry_withDetails:
  "\<exists>out s'. forEachEntry (withDetails sys) wts s = (Inr out, s') \<and> map core out = map core wts"
proof (induction wts arbitrary: s)
  case Nil
  then show ?case by (simp add: yield_def)
next
  case (Cons wt wts)
  from withDetails_returns [of sys wt s] obtain wt' s1
    where 1: "withDetails sys wt s = (Inr wt', s1)" "core wt' = core wt" by blast
  from Cons [of s1] obtain out s' where
    2: "forEachEntry (withDetails sys) wts s1 = (Inr out, s')" "map core out = map core wts" by blast
  from 1 2 show ?case by (simp add: andThen_def yield_def)
qed

text \<open>For a repository whose listing command succeeds, the handler answers with one
  entry per parsed entry, whatever the details queries do.\<close>

lemma listHandler_returns:
  assumes "lr_projectPath body = Some projectPath" and "projectPath \<noteq> []"
    and "isGitRepo sys projectPath w = (Inr True, w1)"
    and "exec sys ''git worktree list --porcelain'' (inProject projectPath) w1 = (Inr stdout, w2)"
  shows "\<exists>wts s'. listHandler sys body (w, log) = (Success wts, s') \<and>
           map core wts = map core (parseWorktrees stdout) \<and>
           (lr_includeDetails body \<noteq> Some True \<longrightarrow> wts = parseWorktrees stdout)"
proof (cases "lr_includeDetails body = Some True")
  case True
  from forEachEntry_withDetails [of sys "parseWorktrees stdout" "(w2, log @ listingLog projectPath stdout)"]
  obtain out s' where "forEachEntry (withDetails sys) (parseWorktrees stdout) (w2, log @ listingLog projectPath stdout) = (Inr out, s')"
    "map core out = map core (parseWorktrees stdout)" by blast
  with assms True show ?thesis
    by (simp add: listHandler_def handler_def truthy_def andThen_def call_def execAsync_def
        yield_def listingLog_def)
next
  case False
  with assms show ?thesis
    by (simp add: listHandler_def handler_def truthy_def andThen_def call_def execAsync_def yield_def)
qed

text \<open>
  C5.  When the lines of the listing are the lines of \<open>N\<close> well-formed blocks, an empty
  line after each block (and any number of empty lines at the end), \<open>list\<close> answers
  with exactly \<open>N\<close> entries, with or without details; the first entry has
  \<open>isMain = true\<close> and every other has \<open>isMain = false\<close>; each entry carries the path
  and the branch of its block.
\<close>

theorem list_entries_per_block:
  assumes "lr_projectPath body = Some projectPath" and "projectPath \<noteq> []"
    and "isGitRepo sys projectPath w = (Inr True, w1)"
    and "exec sys ''git worktree list --porcelain'' (inProject projectPath) w1 = (Inr stdout, w2)"
    and "split (CHR 0x0A) stdout = concat (map (\<lambda>b. b @ [[]]) blocks) @ replicate k []"
    and "\<forall>b \<in> set blocks. wellFormedBlock b"
  shows "\<exists>wts s'. listHandler sys body (w, log) = (Success wts, s') \<and>
           length wts = length blocks \<and>
           (\<forall>i < length blocks.
              (isMain (wts ! i) \<longleftrightarrow> i = 0) \<and>
              wt_path (wts ! i) = hd (blockPaths (blocks ! i)) \<and>
              wt_branch (wts ! i) = replaceFirst ''refs/heads/'' [] (hd (blockRefs (blocks ! i))))"
proof -
  from listHandler_returns [OF assms(1-4), of log] obtain wts s'
    where run: "listHandler sys body (w, log) = (Success wts, s')"
      and c: "map core wts = map core (parseWorktrees stdout)" by blast
  have p: "parseWorktrees stdout = blockEntries True blocks"
    by (rule parseWorktrees_blocks [OF assms(5,6)])
  from c have len: "length wts = length blocks"
    unfolding p using blockEntries_length map_eq_imp_length_eq by metis
  have "core (wts ! i) = core (blockEntry (i = 0) (blocks ! i))" if "i < length blocks" for i
  proof -
    have "core (wts ! i) = core (blockEntries True blocks ! i)"
      using c that len unfolding p by (metis blockEntries_length nth_map)
    then show ?thesis by (simp add: blockEntries_nth [OF that])
  qed
  then have "\<forall>i < length blocks.
              (isMain (wts ! i) \<longleftrightarrow> i = 0) \<and>
              wt_path (wts ! i) = hd (blockPaths (blocks ! i)) \<and>
              wt_branch (wts ! i) = replaceFirst ''refs/heads/'' [] (hd (blockRefs (blocks ! i)))"
    by (simp add: core_def blockEntry_def)
  with run len show ?thesis by blast
qed

theorem list_entries_per_block_witness:
  "lr_projectPath sampleRequest = Some ''/repo'' \<and> ''/repo'' \<noteq> [] \<and>
   isGitRepo sampleSystem ''/repo'' () = (Inr True, ()) \<and>
   exec sampleSystem ''git worktree list --porcelain'' (inProject ''/repo'') ()
     = (Inr sampleListing, ()) \<and>
   split (CHR 0x0A) sampleListing = concat (map (\<lambda>b. b @ [[]]) sampleBlocks) @ replicate 1 [] \<and>
   list_all wellFormedBlock sampleBlocks \<and>
   (\<exists>wts s'. listHandler sampleSystem sampleRequest ((), []) = (Success wts, s') \<and>
      length wts = 2 \<and> isMain (wts ! 0) \<and> \<not> isMain (wts ! 1) \<and>
      wt_path (wts ! 1) = ''/repo/.worktrees/login'' \<and> wt_branch (wts ! 1) = ''feature/login'')"
proof -
  have h1: "lr_projectPath sampleRequest = Some ''/repo''" by code_simp
  have h2: "''/repo'' \<noteq> []" by simp
  have h3: "isGitRepo sampleSystem ''/repo'' () = (Inr True, ())" by code_simp
  have h4: "exec sampleSystem ''git worktree list --porcelain'' (inProject ''/repo'') ()
     = (Inr sampleListing, ())" by code_simp
  have h5: "split (CHR 0x0A) sampleListing
     = concat (map (\<lambda>b. b @ [[]]) sampleBlocks) @ replicate 1 []" by code_simp
  have wf: "list_all wellFormedBlock sampleBlocks" by code_simp
  then have h6: "\<forall>b \<in> set sampleBlocks. wellFormedBlock b" by (simp add: list_all_iff)
  have len: "length sampleBlocks = 2" by code_simp
  have b1: "hd (blockPaths (sampleBlocks ! Suc 0)) = ''/repo/.worktrees/login''" by code_simp
  have b2: "replaceFirst ''refs/heads/'' [] (hd (blockRefs (sampleBlocks ! Suc 0))) = ''feature/login''"
    by code_simp
  from list_entries_per_block [OF h1 h2 h3 h4 h5 h6, of "[]"]
  obtain wts s' where run: "listHandler sampleSystem sampleRequest ((), []) = (Success wts, s')"
    and n: "length wts = length sampleBlocks"
    and each: "\<forall>i < length sampleBlocks.
              (isMain (wts ! i) \<longleftrightarrow> i = 0) \<and>
              wt_path (wts ! i) = hd (blockPaths (sampleBlocks ! i)) \<and>
              wt_branch (wts ! i) = replaceFirst ''refs/heads/'' [] (hd (blockRefs (sampleBlocks ! i)))"
    by blast
  from each [rule_format, of 0] each [rule_format, of 1]
  have "isMain (wts ! 0) \<and> \<not> isMain (wts ! 1) \<and>
      wt_path (wts ! 1) = ''/repo/.worktrees/login'' \<and> wt_branch (wts ! 1) = ''feature/login''"
    by (simp add: len b1 b2)
  with run n len have "\<exists>wts s'. listHandler sampleSystem sampleRequest ((), []) = (Success wts, s') \<and>
      length wts = 2 \<and> isMain (wts ! 0) \<and> \<not> isMain (wts ! 1) \<and>
      wt_path (wts ! 1) = ''/repo/.worktrees/login'' \<and> wt_branch (wts ! 1) = ''feature/login''"
    by (intro exI [where x = wts] exI [where x = s']) simp
  with h1 h2 h3 h4 h5 wf show ?thesis by blast
qed

lemma parseLine_noDetails:
  "list_all noDetails (worktrees st) \<Longrightarrow> list_all noDetails (worktrees (parseLine l st))"
  by (simp add: parseLine_def noDetails_def)

lemma fold_parseLine_noDetails:
  "list_all noDetails (worktrees st) \<Longrightarrow> list_all noDetails (worktrees (fold parseLine ls st))"
  by (induction ls arbitrary: st) (simp_all add: parseLine_noDetails)

lemma parseWorktrees_noDetails: "list_all noDetails (parseWorktrees stdout)"
  unfolding parseWorktrees_def by (rule fold_parseLine_noDetails) (simp add: parseStart_def)

lemma listHandler_details:
  assumes "lr_projectPath body = Some projectPath" and "projectPath \<noteq> []"
    and "lr_includeDetails body = Some True"
    and "isGitRepo sys projectPath w = (Inr True, w1)"
    and "exec sys ''git worktree list --porcelain'' (inProject projectPath) w1 = (Inr stdout, w2)"
  shows "\<exists>wts s'. listHandler sys body (w, log) = (Success wts, s') \<and>
           forEachEntry (withDetails sys) (parseWorktrees stdout)
             (w2, log @ listingLog projectPath stdout) = (Inr wts, s') \<and>
           map core wts = map core (parseWorktrees stdout)"
proof -
  from forEachEntry_withDetails [of sys "parseWorktrees stdout" "(w2, log @ listingLog projectPath stdout)"]
  obtain out s' where "forEachEntry (withDetails sys) (parseWorktrees stdout) (w2, log @ listingLog projectPath stdout) = (Inr out, s')"
    "map core out = map core (parseWorktrees stdout)" by blast
  with assms show ?thesis
    by (simp add: listHandler_def handler_def truthy_def andThen_def call_def execAsync_def yield_def listingLog_def)
qed

text \<open>
  C9, as the code has it.  With details requested, a failing sub-query never aborts the
  listing: the answer is a success with every parsed entry, path, branch and \<open>isMain\<close>
  unchanged.  The parsed entries carry no detail field.  When an entry's
  \<open>git status\<close> fails, the entry is returned as parsed: its three detail fields stay
  absent, and the divergence query is not run.  When \<open>git status\<close> succeeds and the
  \<open>rev-list\<close> query fails, \<open>aheadBehind\<close> is \<open>{ahead: 0, behind: 0}\<close> and
  \<open>hasChanges\<close> and \<open>changedFilesCount\<close> are those of the status output.
\<close>

theorem list_details_degrade:
  assumes "lr_projectPath body = Some projectPath" and "projectPath \<noteq> []"
    and "lr_includeDetails body = Some True"
    and "isGitRepo sys projectPath w = (Inr True, w1)"
    and "exec sys ''git worktree list --porcelain'' (inProject projectPath) w1 = (Inr stdout, w2)"
  shows "(\<exists>wts s'. listHandler sys body (w, log) = (Success wts, s') \<and>
            forEachEntry (withDetails sys) (parseWorktrees stdout)
              (w2, log @ listingLog projectPath stdout) = (Inr wts, s') \<and>
            map core wts = map core (parseWorktrees stdout)) \<and>
         list_all noDetails (parseWorktrees stdout) \<and>
         (\<forall>wt s e s1.
            execAsync sys ''git status --porcelain'' (inWorktreeDir wt) s = (Inl e, s1) \<longrightarrow>
            withDetails sys wt s = (Inr wt, s1)) \<and>
         (\<forall>wt s out s1 e s2.
            execAsync sys ''git status --porcelain'' (inWorktreeDir wt) s = (Inr out, s1) \<and>
            execAsync sys (revListCmd wt) (inWorktreeDir wt) s1 = (Inl e, s2) \<longrightarrow>
            withDetails sys wt s =
              (Inr (wt\<lparr>hasChanges := Some (0 < length (changedFiles out)),
                        changedFilesCount := Some (length (changedFiles out)),
                        aheadBehind := Some \<lparr>ahead = 0, behind = 0\<rparr>\<rparr>), s2))"
  using listHandler_details [OF assms] parseWorktrees_noDetails
    withDetails_status_fails withDetails_revList_fails
  by blast

theorem list_details_degrade_witness:
  "lr_projectPath sampleRequest = Some ''/repo'' \<and> ''/repo'' \<noteq> [] \<and>
   lr_includeDetails sampleRequest = Some True \<and>
   isGitRepo sampleSystem ''/repo'' () = (Inr True, ()) \<and>
   exec sampleSystem ''git worktree list --porcelain'' (inProject ''/repo'') ()
     = (Inr sampleListing, ()) \<and>
   parseWorktrees sampleListing = [sampleMainEntry, sampleLoginEntry] \<and>
   withDetails sampleSystem sampleMainEntry ((), [])
     = (Inr sampleMainEntry,
        ((), [\<lparr>command = ''git status --porcelain'', options = inWorktreeDir sampleMainEntry,
               outcome = Inl \<lparr>stderr = Some ''fatal: index file corrupt'', message = None\<rparr>\<rparr>])) \<and>
   withDetails sampleSystem sampleLoginEntry ((), [])
     = (Inr (sampleLoginEntry\<lparr>hasChanges := Some True, changedFilesCount := Some 1,
               aheadBehind := Some \<lparr>ahead = 0, behind = 0\<rparr>\<rparr>),
        ((), [\<lparr>command = ''git status --porcelain'', options = inWorktreeDir sampleLoginEntry,
               outcome = Inr ('' M src/app.ts'' @ [CHR 0x0A])\<rparr>,
              \<lparr>command = revListCmd sampleLoginEntry, options = inWorktreeDir sampleLoginEntry,
               outcome = Inl \<lparr>stderr = Some ''fatal: ambiguous argument'', message = None\<rparr>\<rparr>]))"
proof -
  have h1: "lr_projectPath sampleRequest = Some ''/repo''" by code_simp
  have h2: "''/repo'' \<noteq> []" by simp
  have h3: "lr_includeDetails sampleRequest = Some True" by code_simp
  have h4: "isGitRepo sampleSystem ''/repo'' () = (Inr True, ())" by code_simp
  have h5: "exec sampleSystem ''git worktree list --porcelain'' (inProject ''/repo'') ()
     = (Inr sampleListing, ())" by code_simp
  have p: "parseWorktrees sampleListing = [sampleMainEntry, sampleLoginEntry]" by code_simp
  have q1: "execAsync sampleSystem ''git status --porcelain'' (inWorktreeDir sampleMainEntry)
      ((), []) = (Inl \<lparr>stderr = Some ''fatal: index file corrupt'', message = None\<rparr>,
        ((), [\<lparr>command = ''git status --porcelain'', options = inWorktreeDir sampleMainEntry,
               outcome = Inl \<lparr>stderr = Some ''fatal: index file corrupt'', message = None\<rparr>\<rparr>]))" by code_simp
  have q2: "execAsync sampleSystem ''git status --porcelain'' (inWorktreeDir sampleLoginEntry)
      ((), []) = (Inr ('' M src/app.ts'' @ [CHR 0x0A]),
        ((), [\<lparr>command = ''git status --porcelain'', options = inWorktreeDir sampleLoginEntry,
               outcome = Inr ('' M src/app.ts'' @ [CHR 0x0A])\<rparr>]))" by code_simp
  have q3: "execAsync sampleSystem (revListCmd sampleLoginEntry) (inWorktreeDir sampleLoginEntry)
      ((), [\<lparr>command = ''git status --porcelain'', options = inWorktreeDir sampleLoginEntry,
               outcome = Inr ('' M src/app.ts'' @ [CHR 0x0A])\<rparr>])
      = (Inl \<lparr>stderr = Some ''fatal: ambiguous argument'', message = None\<rparr>,
        ((), [\<lparr>command = ''git status --porcelain'', options = inWorktreeDir sampleLoginEntry,
               outcome = Inr ('' M src/app.ts'' @ [CHR 0x0A])\<rparr>,
              \<lparr>command = revListCmd sampleLoginEntry, options = inWorktreeDir sampleLoginEntry,
               outcome = Inl \<lparr>stderr = Some ''fatal: ambiguous argument'', message = None\<rparr>\<rparr>]))" by code_simp
  have c: "changedFiles ('' M src/app.ts'' @ [CHR 0x0A]) = ['' M src/app.ts'']" by code_simp
  note T = list_details_degrade [OF h1 h2 h3 h4 h5, of "[]"]
  from T q1 have r1: "withDetails sampleSystem sampleMainEntry ((), [])
     = (Inr sampleMainEntry,
        ((), [\<lparr>command = ''git status --porcelain'', options = inWorktreeDir sampleMainEntry,
               outcome = Inl \<lparr>stderr = Some ''fatal: index file corrupt'', message = None\<rparr>\<rparr>]))"
    by blast
  from T q2 q3 have "withDetails sampleSystem sampleLoginEntry ((), [])
     = (Inr (sampleLoginEntry\<lparr>hasChanges := Some (0 < length (changedFiles ('' M src/app.ts'' @ [CHR 0x0A]))),
               changedFilesCount := Some (length (changedFiles ('' M src/app.ts'' @ [CHR 0x0A]))),
               aheadBehind := Some \<lparr>ahead = 0, behind = 0\<rparr>\<rparr>),
        ((), [\<lparr>command = ''git status --porcelain'', options = inWorktreeDir sampleLoginEntry,
               outcome = Inr ('' M src/app.ts'' @ [CHR 0x0A])\<rparr>,
              \<lparr>command = revListCmd sampleLoginEntry, options = inWorktreeDir sampleLoginEntry,
               outcome = Inl \<lparr>stderr = Some ''fatal: ambiguous argument'', message = None\<rparr>\<rparr>]))"
    by blast
  then have r2: "withDetails sampleSystem sampleLoginEntry ((), [])
     = (Inr (sampleLoginEntry\<lparr>hasChanges := Some True, changedFilesCount := Some 1,
               aheadBehind := Some \<lparr>ahead = 0, behind = 0\<rparr>\<rparr>),
        ((), [\<lparr>command = ''git status --porcelain'', options = inWorktreeDir sampleLoginEntry,
               outcome = Inr ('' M src/app.ts'' @ [CHR 0x0A])\<rparr>,
              \<lparr>command = revListCmd sampleLoginEntry, options = inWorktreeDir sampleLoginEntry,
               outcome = Inl \<lparr>stderr = Some ''fatal: ambiguous argument'', message = None\<rparr>\<rparr>]))"
    unfolding c by simp
  from h1 h2 h3 h4 h5 p r1 r2 show ?thesis by blast
qed

text \<open>
  C9, as stated, fails: in the sample repository the change-count query of the main
  checkout fails, and the entry returned for it has no \<open>hasChanges\<close>, no
  \<open>changedFilesCount\<close> and no \<open>aheadBehind\<close>, rather than \<open>false\<close>, \<open>0\<close> and
  \<open>{ahead: 0, behind: 0}\<close>.
\<close>

theorem details_left_absent_counterexample:
  "fst (exec sampleSystem ''git status --porcelain'' (inWorktreeDir sampleMainEntry) ())
     = Inl \<lparr>stderr = Some ''fatal: index file corrupt'', message = None\<rparr> \<and>
   fst (listHandler sampleSystem sampleRequest ((), []))
     = Success [sampleMainEntry,
         sampleLoginEntry\<lparr>hasChanges := Some True, changedFilesCount := Some 1,
           aheadBehind := Some \<lparr>ahead = 0, behind = 0\<rparr>\<rparr>] \<and>
   hasChanges sampleMainEntry \<noteq> Some False \<and>
   changedFilesCount sampleMainEntry \<noteq> Some 0 \<and>
   aheadBehind sampleMainEntry \<noteq> Some \<lparr>ahead = 0, behind = 0\<rparr>"
  by code_simp

section \<open>Publication pipeline: the runs of the handler\<close>

lemma pushBranch_cases:
  "pushBranch sys dir b s =
     (case execAsync sys (pushCmd b) (inWorktreeEnv dir) s of
        (Inr x, s1) \<Rightarrow> (Inr None, s1)
      | (Inl e1, s1) \<Rightarrow>
          (case execAsync sys (pushUpstreamCmd b) (inWorktreeEnv dir) s1 of
             (Inr x, s2) \<Rightarrow> (Inr None, s2)
           | (Inl e2, s2) \<Rightarrow> (Inr (Some (describe e2 ''Push failed'')), s2)))"
  by (auto simp: pushBranch_def tryCatch_def andThen_def yield_def split: prod.splits sum.splits)

lemma pushBranch_returns: "pushBranch sys dir b s \<noteq> (Inl e, s')"
  by (auto simp: pushBranch_cases split: prod.splits sum.splits)

lemma detectFork_cases:
  "detectFork sys dir s =
     (case execAsync sys ''git remote -v'' (inWorktreeEnv dir) s of
        (r, s1) \<Rightarrow> (Inr (forkOf r), s1))"
  by (auto simp: detectFork_def tryCatch_def andThen_def yield_def forkOf_def
      split: prod.splits sum.splits)

lemma createPullRequest_cases:
  "createPullRequest sys body dir b s =
     (case execAsync sys ''command -v gh'' envOnly s of
        (Inl e, s1) \<Rightarrow> (Inr (None, Some (describe e ''PR creation failed'')), s1)
      | (Inr x, s1) \<Rightarrow>
          (case execAsync sys ''git remote -v'' (inWorktreeEnv dir) s1 of
             (r, s2) \<Rightarrow>
               (case execAsync sys (requestedPrCmd body (forkOf r) b) (inWorktreeEnv dir) s2 of
                  (Inl e, s3) \<Rightarrow> (Inr (None, Some (describe e ''PR creation failed'')), s3)
                | (Inr prOutput, s3) \<Rightarrow> (Inr (Some (trim prOutput), None), s3))))"
  by (auto simp: createPullRequest_def tryCatch_def andThen_def yield_def Let_def
      detectFork_cases requestedPrCmd_def split: prod.splits sum.splits)

lemma createPullRequest_returns: "createPullRequest sys body dir b s \<noteq> (Inl e, s')"
  by (auto simp: createPullRequest_cases split: prod.splits sum.splits)

lemma createPRHandler_steps:
  assumes "createPRHandler sys body s = (resp, s')"
  shows "(\<not> truthy (rq_worktreePath body) \<and> s' = s \<and> resp = Failure 400 ''worktreePath required'') \<or>
    (\<exists>dir. rq_worktreePath body = Some dir \<and>
      ((\<exists>e. execAsync sys ''git rev-parse --abbrev-ref HEAD'' (inWorktreeEnv dir) s = (Inl e, s') \<and>
            resp = Failure 500 (getErrorMessage sys e)) \<or>
       (\<exists>bo s1. execAsync sys ''git rev-parse --abbrev-ref HEAD'' (inWorktreeEnv dir) s = (Inr bo, s1) \<and>
         ((\<exists>e. execAsync sys ''git status --porcelain'' (inWorktreeEnv dir) s1 = (Inl e, s') \<and>
               resp = Failure 500 (getErrorMessage sys e)) \<or>
          (\<exists>so s2. execAsync sys ''git status --porcelain'' (inWorktreeEnv dir) s1 = (Inr so, s2) \<and>
            ((\<exists>e. commitChanges sys dir (trim bo) (rq_commitMessage body) (0 < length (trim so)) s2
                     = (Inl e, s') \<and> resp = Failure 500 (getErrorMessage sys e)) \<or>
             (\<exists>hash s3 pe s4.
                commitChanges sys dir (trim bo) (rq_commitMessage body) (0 < length (trim so)) s2
                     = (Inr hash, s3) \<and>
                pushBranch sys dir (trim bo) s3 = (Inr pe, s4) \<and>
                (if truthy pe
                 then s' = s4 \<and> resp = Failure 500 (''Failed to push branch: '' @ the pe)
                 else (\<exists>url err. createPullRequest sys body dir (trim bo) s4 = (Inr (url, err), s') \<and>
                        resp = Success
                          \<lparr>branch = trim bo, committed = (0 < length (trim so)),
                           commitHash = hash, pushed = True, prUrl = url,
                           prCreated = truthy url, prError = orUndefined err\<rparr>)))))))))"
  using assms
  by (cases "rq_worktreePath body")
     (auto simp: createPRHandler_def handler_def andThen_def yield_def Let_def truthy_def
         pushBranch_returns createPullRequest_returns
           split: prod.splits sum.splits if_splits)

lemma execAsync_invoked:
  "execAsync sys c opts s = (r, s') \<Longrightarrow> snd s' = snd s @ [invoked c opts r]"
  by (auto simp: invoked_def dest: execAsync_log)

lemma since_append: "snd s' = snd s @ L \<Longrightarrow> since s s' = L"
  by (simp add: since_def)

lemma commitChanges_log:
  assumes "commitChanges sys dir b cm changed s = (r, s')"
  shows "\<exists>L. snd s' = snd s @ L \<and> (\<forall>i \<in> set L. preCommand (command i)) \<and>
           (\<forall>hash. r = Inr hash \<longrightarrow>
              (if changed
               then \<exists>a c ho. L = [invoked ''git add -A'' (inWorktreeEnv dir) (Inr a),
                       invoked (commitCmd (orElse cm (''Changes from '' @ b)))
                         (inWorktreeEnv dir) (Inr c),
                       invoked ''git rev-parse HEAD'' (inWorktreeEnv dir) (Inr ho)] \<and>
                     hash = Some (take 8 (trim ho))
               else L = [] \<and> hash = None))"
proof (cases changed)
  case False
  with assms show ?thesis by (auto simp: commitChanges_def yield_def)
next
  case True
  obtain r1 s1 where 1: "execAsync sys ''git add -A'' (inWorktreeEnv dir) s = (r1, s1)"
    by (meson surj_pair)
  obtain r2 s2 where 2: "execAsync sys (commitCmd (orElse cm (''Changes from '' @ b)))
      (inWorktreeEnv dir) s1 = (r2, s2)"
    by (meson surj_pair)
  obtain r3 s3 where 3: "execAsync sys ''git rev-parse HEAD'' (inWorktreeEnv dir) s2 = (r3, s3)"
    by (meson surj_pair)
  note logs = execAsync_invoked [OF 1] execAsync_invoked [OF 2] execAsync_invoked [OF 3]
  have pre: "preCommand ''git add -A''" "preCommand (commitCmd m)" "preCommand ''git rev-parse HEAD''" for m
    by (simp_all add: preCommand_def commitCmd_def startsWith_def)
  from assms True 1 2 3 logs pre show ?thesis
    by (cases r1; cases r2; cases r3)
       (auto simp: commitChanges_def andThen_def yield_def invoked_def)
qed

lemma pushBranch_log:
  assumes "pushBranch sys dir b s = (Inr pe, s')"
  shows "\<exists>L. snd s' = snd s @ L \<and>
     ((pe = None \<and>
       ((\<exists>x. L = [invoked (pushCmd b) (inWorktreeEnv dir) (Inr x)]) \<or>
        (\<exists>e1 x. L = [invoked (pushCmd b) (inWorktreeEnv dir) (Inl e1),
                      invoked (pushUpstreamCmd b) (inWorktreeEnv dir) (Inr x)]))) \<or>
      (\<exists>e1 e2. pe = Some (describe e2 ''Push failed'') \<and>
         L = [invoked (pushCmd b) (inWorktreeEnv dir) (Inl e1),
              invoked (pushUpstreamCmd b) (inWorktreeEnv dir) (Inl e2)]))"
proof -
  obtain r1 s1 where 1: "execAsync sys (pushCmd b) (inWorktreeEnv dir) s = (r1, s1)"
    by (meson surj_pair)
  obtain r2 s2 where 2: "execAsync sys (pushUpstreamCmd b) (inWorktreeEnv dir) s1 = (r2, s2)"
    by (meson surj_pair)
  note logs = execAsync_invoked [OF 1] execAsync_invoked [OF 2]
  from assms 1 2 logs show ?thesis
    by (cases r1; cases r2) (auto simp: pushBranch_cases)
qed

lemma createPullRequest_log:
  assumes "createPullRequest sys body dir b s = (Inr (url, err), s')"
  shows "\<exists>L. snd s' = snd s @ L \<and>
     ((\<exists>e. L = [invoked ''command -v gh'' envOnly (Inl e)] \<and> url = None \<and>
            err = Some (describe e ''PR creation failed'')) \<or>
      (\<exists>x r e. L = [invoked ''command -v gh'' envOnly (Inr x),
                     invoked ''git remote -v'' (inWorktreeEnv dir) r,
                     invoked (requestedPrCmd body (forkOf r) b) (inWorktreeEnv dir) (Inl e)] \<and>
            url = None \<and> err = Some (describe e ''PR creation failed'')) \<or>
      (\<exists>x r out. L = [invoked ''command -v gh'' envOnly (Inr x),
                     invoked ''git remote -v'' (inWorktreeEnv dir) r,
                     invoked (requestedPrCmd body (forkOf r) b) (inWorktreeEnv dir) (Inr out)] \<and>
            url = Some (trim out) \<and> err = None))"
proof -
  obtain r1 s1 where 1: "execAsync sys ''command -v gh'' envOnly s = (r1, s1)"
    by (meson surj_pair)
  obtain r2 s2 where 2: "execAsync sys ''git remote -v'' (inWorktreeEnv dir) s1 = (r2, s2)"
    by (meson surj_pair)
  obtain r3 s3 where 3: "execAsync sys (requestedPrCmd body (forkOf r2) b) (inWorktreeEnv dir) s2
      = (r3, s3)"
    by (meson surj_pair)
  note logs = execAsync_invoked [OF 1] execAsync_invoked [OF 2] execAsync_invoked [OF 3]
  from assms 1 2 3 logs show ?thesis
    by (cases r1; cases r2; cases r3)
       (auto simp: createPullRequest_cases)
qed

text \<open>Every run of the handler has one of four shapes.\<close>

lemma createPRHandler_shape:
  assumes "createPRHandler sys body s = (resp, s')"
  obtains
    (invalid) "since s s' = []" and "resp = Failure 400 ''worktreePath required''"
  | (aborted) e where "resp = Failure 500 (getErrorMessage sys e)"
      and "\<forall>i \<in> set (since s s'). preCommand (command i)"
  | (unpushed) pre dir b e1 e2 where
      "since s s' = pre @ [invoked (pushCmd b) (inWorktreeEnv dir) (Inl e1),
                          invoked (pushUpstreamCmd b) (inWorktreeEnv dir) (Inl e2)]"
      and "\<forall>i \<in> set pre. preCommand (command i)"
      and "resp = Failure 500 (''Failed to push branch: '' @ describe e2 ''Push failed'')"
  | (pushed) dir bo so commits hash pushes prlog url err where
      "rq_worktreePath body = Some dir"
      and "since s s' =
             [invoked ''git rev-parse --abbrev-ref HEAD'' (inWorktreeEnv dir) (Inr bo),
              invoked ''git status --porcelain'' (inWorktreeEnv dir) (Inr so)]
             @ commits @ pushes @ prlog"
      and "if 0 < length (trim so)
           then \<exists>a c ho. commits = [invoked ''git add -A'' (inWorktreeEnv dir) (Inr a),
                       invoked (commitCmd (orElse (rq_commitMessage body)
                                  (''Changes from '' @ trim bo)))
                         (inWorktreeEnv dir) (Inr c),
                       invoked ''git rev-parse HEAD'' (inWorktreeEnv dir) (Inr ho)] \<and>
                     hash = Some (take 8 (trim ho))
           else commits = [] \<and> hash = None"
      and "(\<exists>x. pushes = [invoked (pushCmd (trim bo)) (inWorktreeEnv dir) (Inr x)]) \<or>
           (\<exists>e1 x. pushes = [invoked (pushCmd (trim bo)) (inWorktreeEnv dir) (Inl e1),
                      invoked (pushUpstreamCmd (trim bo)) (inWorktreeEnv dir) (Inr x)])"
      and "(\<exists>e. prlog = [invoked ''command -v gh'' envOnly (Inl e)] \<and> url = None \<and>
               err = Some (describe e ''PR creation failed'')) \<or>
           (\<exists>x r e. prlog = [invoked ''command -v gh'' envOnly (Inr x),
                     invoked ''git remote -v'' (inWorktreeEnv dir) r,
                     invoked (requestedPrCmd body (forkOf r) (trim bo)) (inWorktreeEnv dir)
                       (Inl e)] \<and>
               url = None \<and> err = Some (describe e ''PR creation failed'')) \<or>
           (\<exists>x r out. prlog = [invoked ''command -v gh'' envOnly (Inr x),
                     invoked ''git remote -v'' (inWorktreeEnv dir) r,
                     invoked (requestedPrCmd body (forkOf r) (trim bo)) (inWorktreeEnv dir)
                       (Inr out)] \<and>
               url = Some (trim out) \<and> err = None)"
      and "resp = Success
              \<lparr>branch = trim bo, committed = (0 < length (trim so)), commitHash = hash,
               pushed = True, prUrl = url, prCreated = truthy url,
               prError = orUndefined err\<rparr>"
proof -
  have pre: "preCommand ''git rev-parse --abbrev-ref HEAD''" "preCommand ''git status --porcelain''"
    by (simp_all add: preCommand_def)
  from createPRHandler_steps [OF assms] show thesis
  proof (elim disjE exE conjE, goal_cases)
    case a: 1
    then show ?thesis by (intro invalid) (simp_all add: since_def)
  next
    case b: (2 dir e)
    from execAsync_invoked [OF b(2)] have "since s s' = [invoked ''git rev-parse --abbrev-ref HEAD'' (inWorktreeEnv dir) (Inl e)]"
      by (rule since_append)
    with b(3) pre show ?thesis by (intro aborted [of e]) (simp_all add: invoked_def)
  next
    case c: (3 dir bo s1 e)
    from execAsync_invoked [OF c(2)] execAsync_invoked [OF c(3)]
    have "since s s' = [invoked ''git rev-parse --abbrev-ref HEAD'' (inWorktreeEnv dir) (Inr bo),
        invoked ''git status --porcelain'' (inWorktreeEnv dir) (Inl e)]"
      by (intro since_append) simp
    with c(4) pre show ?thesis by (intro aborted [of e]) (simp_all add: invoked_def)
  next
    case d: (4 dir bo s1 so s2 e)
    from commitChanges_log [OF d(4)] obtain L where L: "snd s' = snd s2 @ L"
      "\<forall>i \<in> set L. preCommand (command i)" by blast
    from execAsync_invoked [OF d(2)] execAsync_invoked [OF d(3)] L(1)
    have "since s s' = [invoked ''git rev-parse --abbrev-ref HEAD'' (inWorktreeEnv dir) (Inr bo),
        invoked ''git status --porcelain'' (inWorktreeEnv dir) (Inr so)] @ L"
      by (intro since_append) simp
    with d(5) pre L(2) show ?thesis by (intro aborted [of e]) (simp_all add: invoked_def)
  next
    case e: (5 dir bo s1 so s2 hash s3 pe s4)
    from commitChanges_log [OF e(4)] obtain Lc where Lc: "snd s3 = snd s2 @ Lc"
      "\<forall>i \<in> set Lc. preCommand (command i)"
      "if 0 < length (trim so)
           then \<exists>a c ho. Lc = [invoked ''git add -A'' (inWorktreeEnv dir) (Inr a),
                       invoked (commitCmd (orElse (rq_commitMessage body)
                                  (''Changes from '' @ trim bo)))
                         (inWorktreeEnv dir) (Inr c),
                       invoked ''git rev-parse HEAD'' (inWorktreeEnv dir) (Inr ho)] \<and>
                     hash = Some (take 8 (trim ho))
           else Lc = [] \<and> hash = None"
      by blast
    from pushBranch_log [OF e(5)] obtain Lp where Lp: "snd s4 = snd s3 @ Lp"
      "(pe = None \<and>
       ((\<exists>x. Lp = [invoked (pushCmd (trim bo)) (inWorktreeEnv dir) (Inr x)]) \<or>
        (\<exists>e1 x. Lp = [invoked (pushCmd (trim bo)) (inWorktreeEnv dir) (Inl e1),
                      invoked (pushUpstreamCmd (trim bo)) (inWorktreeEnv dir) (Inr x)]))) \<or>
      (\<exists>e1 e2. pe = Some (describe e2 ''Push failed'') \<and>
         Lp = [invoked (pushCmd (trim bo)) (inWorktreeEnv dir) (Inl e1),
              invoked (pushUpstreamCmd (trim bo)) (inWorktreeEnv dir) (Inl e2)])"
      by blast
    have log4: "snd s4 = snd s @ [invoked ''git rev-parse --abbrev-ref HEAD'' (inWorktreeEnv dir) (Inr bo),
        invoked ''git status --porcelain'' (inWorktreeEnv dir) (Inr so)] @ Lc @ Lp"
      using execAsync_invoked [OF e(2)] execAsync_invoked [OF e(3)] Lc(1) Lp(1) by simp
    show ?thesis
    proof (cases "truthy pe")
      case True
      with Lp(2) obtain e1 e2 where pe: "pe = Some (describe e2 ''Push failed'')"
        and Lp': "Lp = [invoked (pushCmd (trim bo)) (inWorktreeEnv dir) (Inl e1),
              invoked (pushUpstreamCmd (trim bo)) (inWorktreeEnv dir) (Inl e2)]"
        by (auto simp: truthy_def)
      from True e(6) have s': "s' = s4" and r: "resp = Failure 500 (''Failed to push branch: '' @ the pe)"
        by simp_all
      have L: "since s s' = ([invoked ''git rev-parse --abbrev-ref HEAD'' (inWorktreeEnv dir) (Inr bo),
        invoked ''git status --porcelain'' (inWorktreeEnv dir) (Inr so)] @ Lc) @
        [invoked (pushCmd (trim bo)) (inWorktreeEnv dir) (Inl e1),
              invoked (pushUpstreamCmd (trim bo)) (inWorktreeEnv dir) (Inl e2)]"
        using log4 s' Lp' by (intro since_append) simp
      have P: "\<forall>i \<in> set ([invoked ''git rev-parse --abbrev-ref HEAD'' (inWorktreeEnv dir) (Inr bo),
        invoked ''git status --porcelain'' (inWorktreeEnv dir) (Inr so)] @ Lc). preCommand (command i)"
        using pre Lc(2) by (simp add: invoked_def)
      have R: "resp = Failure 500 (''Failed to push branch: '' @ describe e2 ''Push failed'')"
        using r pe by simp
      show ?thesis by (rule unpushed [OF L P R])
    next
      case False
      with e(6) obtain url err where pr: "createPullRequest sys body dir (trim bo) s4 = (Inr (url, err), s')"
        and r: "resp = Success
                          \<lparr>branch = trim bo, committed = (0 < length (trim so)),
                           commitHash = hash, pushed = True, prUrl = url,
                           prCreated = truthy url, prError = orUndefined err\<rparr>"
        by auto
      from createPullRequest_log [OF pr] obtain Lr where Lr: "snd s' = snd s4 @ Lr"
        "(\<exists>e. Lr = [invoked ''command -v gh'' envOnly (Inl e)] \<and> url = None \<and>
               err = Some (describe e ''PR creation failed'')) \<or>
           (\<exists>x r e. Lr = [invoked ''command -v gh'' envOnly (Inr x),
                     invoked ''git remote -v'' (inWorktreeEnv dir) r,
                     invoked (requestedPrCmd body (forkOf r) (trim bo)) (inWorktreeEnv dir)
                       (Inl e)] \<and>
               url = None \<and> err = Some (describe e ''PR creation failed'')) \<or>
           (\<exists>x r out. Lr = [invoked ''command -v gh'' envOnly (Inr x),
                     invoked ''git remote -v'' (inWorktreeEnv dir) r,
                     invoked (requestedPrCmd body (forkOf r) (trim bo)) (inWorktreeEnv dir)
                       (Inr out)] \<and>
               url = Some (trim out) \<and> err = None)"
        by blast
      from False Lp(2) have ok: "(\<exists>x. Lp = [invoked (pushCmd (trim bo)) (inWorktreeEnv dir) (Inr x)]) \<or>
           (\<exists>e1 x. Lp = [invoked (pushCmd (trim bo)) (inWorktreeEnv dir) (Inl e1),
                      invoked (pushUpstreamCmd (trim bo)) (inWorktreeEnv dir) (Inr x)])"
        by (auto simp: truthy_def describe_def orElse_def split: option.splits if_splits)
      have L: "since s s' = [invoked ''git rev-parse --abbrev-ref HEAD'' (inWorktreeEnv dir) (Inr bo),
        invoked ''git status --porcelain'' (inWorktreeEnv dir) (Inr so)] @ Lc @ Lp @ Lr"
        using log4 Lr(1) by (intro since_append) simp
      show ?thesis by (rule pushed [OF e(1) L Lc(3) ok Lr(2) r])
    qed
  qed
qed

lemma invoked_simps [simp]:
  "command (invoked c opts r) = c" "options (invoked c opts r) = opts"
  "outcome (invoked c opts r) = r"
  by (simp_all add: invoked_def)

lemma succeeded_invoked [simp]:
  "succeeded (invoked c opts (Inr x))" "\<not> succeeded (invoked c opts (Inl e))"
  by (simp_all add: succeeded_def)

lemma trim_keep:
  assumes "\<not> isWhiteSpace c" and "\<not> isWhiteSpace q"
  shows "trim (c # p @ q # t) = c # p @ q # rev (dropWhile isWhiteSpace (rev t))"
  using assms by (simp add: trim_def dropWhile_append)

lemma prCmd_eq:
  "prCmd base fk b title body d =
     ''gh pr create --base '' @ quoted base @ headArguments fk b
       @ '' --title '' @ quoted (escapeQuotes title)
       @ '' --body '' @ quoted (escapeQuotes body)
       @ rev (dropWhile isWhiteSpace (rev ('' '' @ d)))"
proof -
  define p where "p = ''h pr create --base '' @ quoted base @ headArguments fk b
       @ '' --title '' @ quoted (escapeQuotes title)
       @ '' --body '' @ [CHR 0x22] @ escapeQuotes body"
  have "prCmd base fk b title body d = trim (CHR ''g'' # p @ CHR 0x22 # ('' '' @ d))"
    by (simp add: prCmd_def p_def quoted_def)
  also have "\<dots> = CHR ''g'' # p @ CHR 0x22 # rev (dropWhile isWhiteSpace (rev ('' '' @ d)))"
    by (rule trim_keep) (simp_all add: isWhiteSpace_def)
  finally show ?thesis by (simp add: p_def quoted_def)
qed

text \<open>Which commands push, create the PR or probe for the hosting CLI.\<close>

lemma preCommand_kinds:
  assumes "preCommand c"
  shows "\<not> startsWith c ''gh pr create''" "\<not> startsWith c ''git push -u origin ''"
    "\<not> startsWith c ''git push --set-upstream origin ''" "c \<noteq> ''command -v gh''"
  using assms by (auto simp: preCommand_def startsWith_iff)

lemma pre_entry_kinds:
  assumes "preCommand (command i)"
  shows "\<not> isPrCommand i" "\<not> isPlainPush i" "\<not> isUpstreamPush i" "\<not> isPush i" "\<not> isProbe i"
  using preCommand_kinds [OF assms]
  by (simp_all add: isPrCommand_def isPlainPush_def isUpstreamPush_def isPush_def isProbe_def)

lemma push_kinds [simp]:
  "isPlainPush (invoked (pushCmd b) opts r)" "\<not> isUpstreamPush (invoked (pushCmd b) opts r)"
  "\<not> isPrCommand (invoked (pushCmd b) opts r)" "\<not> isProbe (invoked (pushCmd b) opts r)"
  "isUpstreamPush (invoked (pushUpstreamCmd b) opts r)"
  "\<not> isPlainPush (invoked (pushUpstreamCmd b) opts r)"
  "\<not> isPrCommand (invoked (pushUpstreamCmd b) opts r)"
  "\<not> isProbe (invoked (pushUpstreamCmd b) opts r)"
  by (simp_all add: isPlainPush_def isUpstreamPush_def isPrCommand_def isProbe_def pushCmd_def
      pushUpstreamCmd_def startsWith_def)

lemma probe_kinds [simp]:
  "isProbe (invoked ''command -v gh'' opts r)"
  "\<not> isPrCommand (invoked ''command -v gh'' opts r)"
  "\<not> isPlainPush (invoked ''command -v gh'' opts r)"
  "\<not> isUpstreamPush (invoked ''command -v gh'' opts r)"
  "\<not> isProbe (invoked ''git remote -v'' opts r)"
  "\<not> isPrCommand (invoked ''git remote -v'' opts r)"
  "\<not> isPlainPush (invoked ''git remote -v'' opts r)"
  "\<not> isUpstreamPush (invoked ''git remote -v'' opts r)"
  by (simp_all add: isPlainPush_def isUpstreamPush_def isPrCommand_def isProbe_def
      startsWith_def)

lemma pr_kinds [simp]:
  "isPrCommand (invoked (requestedPrCmd body fk b) opts r)"
  "\<not> isProbe (invoked (requestedPrCmd body fk b) opts r)"
  "\<not> isPlainPush (invoked (requestedPrCmd body fk b) opts r)"
  "\<not> isUpstreamPush (invoked (requestedPrCmd body fk b) opts r)"
  by (simp_all add: isPlainPush_def isUpstreamPush_def isPrCommand_def isProbe_def
      requestedPrCmd_def prCmd_eq startsWith_def)

lemma describe_nonempty: "d \<noteq> [] \<Longrightarrow> describe e d \<noteq> []"
  by (simp add: describe_def orElse_def split: option.splits)

lemma before_first_match:
  assumes "X @ Y = pre @ i # post" and "\<forall>x \<in> set X. \<not> P x" and "P i"
  shows "set X \<subseteq> set pre"
proof -
  from assms(1) obtain us where
    "(X = pre @ us \<and> us @ Y = i # post) \<or> (X @ us = pre \<and> Y = us @ i # post)"
    by (auto simp: append_eq_append_conv2)
  then show ?thesis
  proof
    assume a: "X = pre @ us \<and> us @ Y = i # post"
    have "us = []"
    proof (cases us)
      case (Cons u us')
      with a have "u = i" "u \<in> set X" by auto
      with assms(2,3) show ?thesis by blast
    qed simp
    with a show ?thesis by simp
  next
    assume "X @ us = pre \<and> Y = us @ i # post"
    then show ?thesis by auto
  qed
qed

section \<open>Publication pipeline: properties\<close>

text \<open>
  C1.  In every run of \<open>publish\<close>: when the plain push and the upstream-setting retry
  both fail, the answer is the failure envelope with status 500 that reports the retry's
  error, the failed retry is the last command of the run, and no PR command is run.  A PR
  command is only ever run after a push that succeeded, and a success envelope (the only
  one that can carry \<open>prCreated\<close>) is only sent after a push that succeeded.
\<close>

theorem push_failure_is_fatal:
  assumes "createPRHandler sys body s = (resp, s')"
  shows "(\<forall>p \<in> set (since s s'). \<forall>u \<in> set (since s s').
            isPlainPush p \<and> \<not> succeeded p \<and> isUpstreamPush u \<and> \<not> succeeded u \<longrightarrow>
            (\<exists>e. outcome u = Inl e \<and>
               resp = Failure 500 (''Failed to push branch: '' @ describe e ''Push failed'')) \<and>
            last (since s s') = u \<and>
            (\<forall>i \<in> set (since s s'). \<not> isPrCommand i)) \<and>
         (\<forall>pre i post. since s s' = pre @ i # post \<and> isPrCommand i \<longrightarrow>
            (\<exists>k \<in> set pre. isPush k \<and> succeeded k)) \<and>
         (\<forall>r. resp = Success r \<longrightarrow> (\<exists>k \<in> set (since s s'). isPush k \<and> succeeded k))"
  using assms
proof (cases rule: createPRHandler_shape)
  case invalid
  then show ?thesis by simp
next
  case (aborted e)
  then have "\<forall>i \<in> set (since s s'). \<not> isPrCommand i \<and> \<not> isUpstreamPush i"
    using pre_entry_kinds by blast
  with aborted(1) show ?thesis by (metis in_set_conv_decomp response.distinct(1))
next
  case (unpushed pre dir b e1 e2)
  have no: "\<forall>i \<in> set (since s s'). \<not> isPrCommand i"
    using unpushed(2) pre_entry_kinds(1) by (auto simp: unpushed(1))
  have up: "u = invoked (pushUpstreamCmd b) (inWorktreeEnv dir) (Inl e2)"
    if "u \<in> set (since s s')" "isUpstreamPush u" for u
    using that unpushed(2) pre_entry_kinds(3) by (auto simp: unpushed(1))
  have la: "last (since s s') = invoked (pushUpstreamCmd b) (inWorktreeEnv dir) (Inl e2)"
    by (simp add: unpushed(1))
  have 1: "(\<exists>e. outcome u = Inl e \<and>
               resp = Failure 500 (''Failed to push branch: '' @ describe e ''Push failed'')) \<and>
            last (since s s') = u \<and> (\<forall>i \<in> set (since s s'). \<not> isPrCommand i)"
    if "u \<in> set (since s s')" "isUpstreamPush u" for u
    using up [OF that] la no unpushed(3) by simp
  from 1 no unpushed(3) show ?thesis by (metis in_set_conv_decomp response.distinct(1))
next
  case (pushed dir bo so commits hash pushes prlog url err)
  let ?A = "[invoked ''git rev-parse --abbrev-ref HEAD'' (inWorktreeEnv dir) (Inr bo),
              invoked ''git status --porcelain'' (inWorktreeEnv dir) (Inr so)] @ commits"
  have pre: "\<forall>i \<in> set ?A. preCommand (command i)"
    using pushed(3) by (auto simp: preCommand_def commitCmd_def startsWith_def split: if_splits)
  have A: "\<forall>i \<in> set ?A. \<not> isPrCommand i \<and> \<not> isUpstreamPush i"
    using pre pre_entry_kinds by blast
  have P: "\<forall>i \<in> set pushes. \<not> isPrCommand i \<and> (isUpstreamPush i \<longrightarrow> succeeded i)"
    using pushed(4) by auto
  have ok: "\<exists>k \<in> set pushes. isPush k \<and> succeeded k"
    using pushed(4) by (auto simp: isPush_def)
  have R: "\<forall>i \<in> set prlog. \<not> isUpstreamPush i"
    using pushed(5) by auto
  have L: "since s s' = (?A @ pushes) @ prlog" by (simp add: pushed(2))
  have 1: "\<not> (isUpstreamPush u \<and> \<not> succeeded u)" if "u \<in> set (since s s')" for u
    using that A P R unfolding L by auto
  have 2: "\<exists>k \<in> set pre. isPush k \<and> succeeded k"
    if "since s s' = pre @ i # post" "isPrCommand i" for pre i post
  proof -
    have "set (?A @ pushes) \<subseteq> set pre"
    proof (rule before_first_match)
      show "(?A @ pushes) @ prlog = pre @ i # post" using that(1) L by simp
      show "\<forall>x \<in> set (?A @ pushes). \<not> isPrCommand x" using A P by auto
      show "isPrCommand i" by fact
    qed
    with ok show ?thesis by auto
  qed
  have 3: "\<exists>k \<in> set (since s s'). isPush k \<and> succeeded k"
    using ok unfolding L by auto
  from 1 2 3 show ?thesis by blast
qed

theorem push_failure_is_fatal_witness:
  "fst (createPRHandler (scripted (publishScript False True True)) publishRequest ((), []))
     = Failure 500 ''Failed to push branch: remote: Permission denied'' \<and>
   map command (since ((), [])
       (snd (createPRHandler (scripted (publishScript False True True)) publishRequest ((), []))))
     = [''git rev-parse --abbrev-ref HEAD'', ''git status --porcelain'', ''git add -A'',
        commitCmd ''Changes from feature-x'', ''git rev-parse HEAD'',
        ''git push -u origin feature-x'', ''git push --set-upstream origin feature-x''] \<and>
   list_all (\<lambda>i. \<not> isPrCommand i) (since ((), [])
       (snd (createPRHandler (scripted (publishScript False True True)) publishRequest ((), []))))"
proof -
  define resp where
    "resp = fst (createPRHandler (scripted (publishScript False True True)) publishRequest ((), []))"
  define s' where
    "s' = snd (createPRHandler (scripted (publishScript False True True)) publishRequest ((), []))"
  have run: "createPRHandler (scripted (publishScript False True True)) publishRequest ((), [])
      = (resp, s')"
    by (simp add: resp_def s'_def)
  have r: "resp = Failure 500 ''Failed to push branch: remote: Permission denied''"
    unfolding resp_def by code_simp
  have c: "map command (since ((), []) s')
     = [''git rev-parse --abbrev-ref HEAD'', ''git status --porcelain'', ''git add -A'',
        commitCmd ''Changes from feature-x'', ''git rev-parse HEAD'',
        ''git push -u origin feature-x'', ''git push --set-upstream origin feature-x'']"
    unfolding s'_def by code_simp
  have "list_ex (\<lambda>p. isPlainPush p \<and> \<not> succeeded p) (since ((), []) s')"
    unfolding s'_def by code_simp
  then obtain p where p: "p \<in> set (since ((), []) s')" "isPlainPush p" "\<not> succeeded p"
    by (auto simp: list_ex_iff)
  have "list_ex (\<lambda>u. isUpstreamPush u \<and> \<not> succeeded u) (since ((), []) s')"
    unfolding s'_def by code_simp
  then obtain u where u: "u \<in> set (since ((), []) s')" "isUpstreamPush u" "\<not> succeeded u"
    by (auto simp: list_ex_iff)
  from push_failure_is_fatal [OF run] p u
  have "\<forall>i \<in> set (since ((), []) s'). \<not> isPrCommand i" by blast
  then have "list_all (\<lambda>i. \<not> isPrCommand i) (since ((), []) s')"
    by (simp add: list_all_iff)
  with r c show ?thesis by (simp add: resp_def s'_def)
qed

lemma orUndefined_describe: "orUndefined (Some (describe e ''PR creation failed'')) = Some (describe e ''PR creation failed'')"
  using describe_nonempty [of "''PR creation failed''" e] by (simp add: orUndefined_def truthy_def)

text \<open>
  C2, as the code has it.  In every run of \<open>publish\<close> in which the probe for the
  hosting CLI fails (which only happens after a push that succeeded), PR creation is
  skipped: the probe is the last command and no PR command is run.  The answer is a
  success envelope with \<open>pushed = true\<close>, \<open>prCreated = false\<close>, no \<open>prUrl\<close>, and
  \<open>prError\<close> set to what the failed probe reports (its \<open>stderr\<close>, else its
  \<open>message\<close>, else \<open>PR creation failed\<close>), never empty: the probe shares the
  \<open>catch\<close> of the PR command, so absence is reported like a PR failure.
\<close>

theorem absent_cli_reported_as_prError:
  assumes "createPRHandler sys body s = (resp, s')"
    and "i \<in> set (since s s')" and "isProbe i" and "\<not> succeeded i"
  shows "\<exists>r e. outcome i = Inl e \<and> resp = Success r \<and> pushed r \<and> \<not> prCreated r \<and>
           prUrl r = None \<and> prError r = Some (describe e ''PR creation failed'') \<and>
           describe e ''PR creation failed'' \<noteq> [] \<and>
           last (since s s') = i \<and>
           (\<forall>j \<in> set (since s s'). \<not> isPrCommand j) \<and>
           (\<exists>k \<in> set (since s s'). isPush k \<and> succeeded k)"
  using assms(1)
proof (cases rule: createPRHandler_shape)
  case invalid
  with assms(2) show ?thesis by simp
next
  case (aborted e)
  with assms(2,3) pre_entry_kinds(5) show ?thesis by blast
next
  case (unpushed pre dir b e1 e2)
  with assms(2,3) pre_entry_kinds(5) show ?thesis by auto
next
  case (pushed dir bo so commits hash pushes prlog url err)
  let ?A = "[invoked ''git rev-parse --abbrev-ref HEAD'' (inWorktreeEnv dir) (Inr bo),
              invoked ''git status --porcelain'' (inWorktreeEnv dir) (Inr so)] @ commits"
  have pre: "\<forall>i \<in> set ?A. preCommand (command i)"
    using pushed(3) by (auto simp: preCommand_def commitCmd_def startsWith_def split: if_splits)
  have A: "\<forall>i \<in> set ?A. \<not> isPrCommand i \<and> \<not> isProbe i"
    using pre pre_entry_kinds by blast
  have P: "\<forall>i \<in> set pushes. \<not> isPrCommand i \<and> \<not> isProbe i"
    using pushed(4) by auto
  have ok: "\<exists>k \<in> set pushes. isPush k \<and> succeeded k"
    using pushed(4) by (auto simp: isPush_def)
  have L: "since s s' = ?A @ pushes @ prlog" by (simp add: pushed(2))
  from assms(2,3) A P have i: "i \<in> set prlog" unfolding L by auto
  with assms(3,4) pushed(5) obtain e where
    e: "prlog = [invoked ''command -v gh'' envOnly (Inl e)]" "url = None"
      "err = Some (describe e ''PR creation failed'')"
    by auto
  from i e(1) have ie: "i = invoked ''command -v gh'' envOnly (Inl e)" by simp
  have "last (since s s') = i" unfolding L by (simp add: e(1) ie)
  moreover have "\<forall>j \<in> set (since s s'). \<not> isPrCommand j"
    using A P unfolding L by (auto simp: e(1))
  moreover have "\<exists>k \<in> set (since s s'). isPush k \<and> succeeded k"
    using ok unfolding L by auto
  ultimately show ?thesis
    using pushed(6) e(2,3) ie describe_nonempty [of "''PR creation failed''" e]
    by (simp add: orUndefined_describe truthy_def)
qed

theorem absent_cli_reported_as_prError_witness:
  "fst (createPRHandler (scripted (publishScript True False True)) publishRequest ((), []))
     = Success \<lparr>branch = ''feature-x'', committed = True, commitHash = Some ''01234567'',
         pushed = True, prUrl = None, prCreated = False,
         prError = Some (''Command failed: command -v gh'' @ [CHR 0x0A])\<rparr> \<and>
   last (since ((), [])
       (snd (createPRHandler (scripted (publishScript True False True)) publishRequest ((), []))))
     = invoked ''command -v gh'' envOnly
         (Inl \<lparr>stderr = Some [],
               message = Some (''Command failed: command -v gh'' @ [CHR 0x0A])\<rparr>) \<and>
   list_all (\<lambda>j. \<not> isPrCommand j) (since ((), [])
       (snd (createPRHandler (scripted (publishScript True False True)) publishRequest ((), []))))"
proof -
  define resp where
    "resp = fst (createPRHandler (scripted (publishScript True False True)) publishRequest ((), []))"
  define s' where
    "s' = snd (createPRHandler (scripted (publishScript True False True)) publishRequest ((), []))"
  define i where "i = invoked ''command -v gh'' envOnly
         (Inl \<lparr>stderr = Some [],
               message = Some (''Command failed: command -v gh'' @ [CHR 0x0A])\<rparr>)"
  have run: "createPRHandler (scripted (publishScript True False True)) publishRequest ((), [])
      = (resp, s')"
    by (simp add: resp_def s'_def)
  have r: "resp = Success \<lparr>branch = ''feature-x'', committed = True, commitHash = Some ''01234567'',
         pushed = True, prUrl = None, prCreated = False,
         prError = Some (''Command failed: command -v gh'' @ [CHR 0x0A])\<rparr>"
    unfolding resp_def by code_simp
  have h2: "i \<in> set (since ((), []) s')"
    unfolding s'_def i_def by code_simp
  have h3: "isProbe i" unfolding i_def by simp
  have h4: "\<not> succeeded i" unfolding i_def by simp
  from absent_cli_reported_as_prError [OF run h2 h3 h4]
  have "last (since ((), []) s') = i" "\<forall>j \<in> set (since ((), []) s'). \<not> isPrCommand j"
    by blast+
  then have "last (since ((), []) s') = i" "list_all (\<lambda>j. \<not> isPrCommand j) (since ((), []) s')"
    by (simp_all add: list_all_iff)
  with r show ?thesis by (simp add: resp_def s'_def i_def)
qed

text \<open>
  C2, as stated, fails: where the push succeeds and the hosting CLI is not installed, the
  result carries a \<open>prError\<close>, the message of the failed probe.
\<close>

theorem absent_cli_sets_prError_counterexample:
  "publishScript True False True ''command -v gh''
     = Inl \<lparr>stderr = Some [], message = Some (''Command failed: command -v gh'' @ [CHR 0x0A])\<rparr> \<and>
   fst (createPRHandler (scripted (publishScript True False True)) publishRequest ((), []))
     = Success \<lparr>branch = ''feature-x'', committed = True, commitHash = Some ''01234567'',
         pushed = True, prUrl = None, prCreated = False,
         prError = Some (''Command failed: command -v gh'' @ [CHR 0x0A])\<rparr> \<and>
   map command (since ((), [])
       (snd (createPRHandler (scripted (publishScript True False True)) publishRequest ((), []))))
     = [''git rev-parse --abbrev-ref HEAD'', ''git status --porcelain'', ''git add -A'',
        commitCmd ''Changes from feature-x'', ''git rev-parse HEAD'',
        ''git push -u origin feature-x'', ''git push --set-upstream origin feature-x'',
        ''command -v gh''] \<and>
   prError \<lparr>branch = ''feature-x'', committed = True, commitHash = Some ''01234567'',
         pushed = True, prUrl = None, prCreated = False,
         prError = Some (''Command failed: command -v gh'' @ [CHR 0x0A])\<rparr> \<noteq> None"
  by code_simp

text \<open>
  C7.  In every run of \<open>publish\<close> in which the PR command fails, the answer is still a
  success envelope: \<open>branch\<close> is the trimmed output of the first command,
  \<open>committed\<close> says whether the status output was non-empty, \<open>commitHash\<close> is the first
  eight characters of the hash read after the commit (absent when nothing was
  committed), \<open>pushed = true\<close>, \<open>prCreated = false\<close>, no \<open>prUrl\<close>, and \<open>prError\<close>
  holds what the failed command reports.  The failed PR command is the last command of
  the run, after a push that succeeded: nothing undoes the commit or the push.
\<close>

theorem pr_failure_keeps_commit_and_push:
  assumes "createPRHandler sys body s = (resp, s')"
    and "i \<in> set (since s s')" and "isPrCommand i" and "\<not> succeeded i"
  shows "\<exists>r e bo so. outcome i = Inl e \<and> resp = Success r \<and>
           outcome (since s s' ! 0) = Inr bo \<and> branch r = trim bo \<and>
           outcome (since s s' ! 1) = Inr so \<and> committed r = (0 < length (trim so)) \<and>
           (if committed r
            then \<exists>ho. since s s' ! 4 =
                        invoked ''git rev-parse HEAD'' (options (since s s' ! 0)) (Inr ho) \<and>
                      commitHash r = Some (take 8 (trim ho))
            else commitHash r = None) \<and>
           pushed r \<and> \<not> prCreated r \<and> prUrl r = None \<and>
           prError r = Some (describe e ''PR creation failed'') \<and>
           last (since s s') = i \<and>
           (\<exists>k \<in> set (since s s'). isPush k \<and> succeeded k)"
  using assms(1)
proof (cases rule: createPRHandler_shape)
  case invalid
  with assms(2) show ?thesis by simp
next
  case (aborted e)
  with assms(2,3) pre_entry_kinds(1) show ?thesis by blast
next
  case (unpushed pre dir b e1 e2)
  with assms(2,3) pre_entry_kinds(1) show ?thesis by auto
next
  case (pushed dir bo so commits hash pushes prlog url err)
  let ?A = "[invoked ''git rev-parse --abbrev-ref HEAD'' (inWorktreeEnv dir) (Inr bo),
              invoked ''git status --porcelain'' (inWorktreeEnv dir) (Inr so)] @ commits"
  have pre: "\<forall>i \<in> set ?A. preCommand (command i)"
    using pushed(3) by (auto simp: preCommand_def commitCmd_def startsWith_def split: if_splits)
  have A: "\<forall>i \<in> set ?A. \<not> isPrCommand i"
    using pre pre_entry_kinds by blast
  have P: "\<forall>i \<in> set pushes. \<not> isPrCommand i"
    using pushed(4) by auto
  have ok: "\<exists>k \<in> set pushes. isPush k \<and> succeeded k"
    using pushed(4) by (auto simp: isPush_def)
  have L: "since s s' = ?A @ pushes @ prlog" by (simp add: pushed(2))
  from assms(2,3) A P have i: "i \<in> set prlog" unfolding L by auto
  with assms(3,4) pushed(5) obtain x r e where
    e: "prlog = [invoked ''command -v gh'' envOnly (Inr x),
                     invoked ''git remote -v'' (inWorktreeEnv dir) r,
                     invoked (requestedPrCmd body (forkOf r) (trim bo)) (inWorktreeEnv dir)
                       (Inl e)]" "url = None"
      "err = Some (describe e ''PR creation failed'')"
    by auto
  from i e(1) assms(3) have ie: "i = invoked (requestedPrCmd body (forkOf r) (trim bo)) (inWorktreeEnv dir)
                       (Inl e)" by auto
  have la: "last (since s s') = i" unfolding L by (simp add: e(1) ie)
  have pu: "\<exists>k \<in> set (since s s'). isPush k \<and> succeeded k"
    using ok unfolding L by auto
  have hd: "outcome (since s s' ! 0) = Inr bo" "outcome (since s s' ! 1) = Inr so"
    "options (since s s' ! 0) = inWorktreeEnv dir"
    unfolding L by simp_all
  have hash: "if 0 < length (trim so)
            then \<exists>ho. since s s' ! 4 =
                        invoked ''git rev-parse HEAD'' (inWorktreeEnv dir) (Inr ho) \<and>
                      hash = Some (take 8 (trim ho))
            else hash = None"
    using pushed(3) unfolding L by (auto split: if_splits)
  show ?thesis
    using pushed(6) e(2,3) ie la pu hd hash
    by (simp add: orUndefined_describe truthy_def)
qed

theorem pr_failure_keeps_commit_and_push_witness:
  "fst (createPRHandler (scripted (publishScript True True False)) publishRequest ((), []))
     = Success \<lparr>branch = ''feature-x'', committed = True, commitHash = Some ''01234567'',
         pushed = True, prUrl = None, prCreated = False,
         prError = Some ''a pull request for branch already exists''\<rparr> \<and>
   isPrCommand (last (since ((), [])
       (snd (createPRHandler (scripted (publishScript True True False)) publishRequest ((), []))))) \<and>
   \<not> succeeded (last (since ((), [])
       (snd (createPRHandler (scripted (publishScript True True False)) publishRequest ((), []))))) \<and>
   list_ex (\<lambda>k. isPush k \<and> succeeded k) (since ((), [])
       (snd (createPRHandler (scripted (publishScript True True False)) publishRequest ((), []))))"
proof -
  define resp where
    "resp = fst (createPRHandler (scripted (publishScript True True False)) publishRequest ((), []))"
  define s' where
    "s' = snd (createPRHandler (scripted (publishScript True True False)) publishRequest ((), []))"
  define i where "i = last (since ((), []) s')"
  have run: "createPRHandler (scripted (publishScript True True False)) publishRequest ((), [])
      = (resp, s')"
    by (simp add: resp_def s'_def)
  have r: "resp = Success \<lparr>branch = ''feature-x'', committed = True, commitHash = Some ''01234567'',
         pushed = True, prUrl = None, prCreated = False,
         prError = Some ''a pull request for branch already exists''\<rparr>"
    unfolding resp_def by code_simp
  have h2: "i \<in> set (since ((), []) s')"
    unfolding s'_def i_def by code_simp
  have h3: "isPrCommand i" unfolding i_def s'_def by code_simp
  have h4: "\<not> succeeded i" unfolding i_def s'_def by code_simp
  from pr_failure_keeps_commit_and_push [OF run h2 h3 h4]
  have "\<exists>k \<in> set (since ((), []) s'). isPush k \<and> succeeded k"
    by blast
  then have "list_ex (\<lambda>k. isPush k \<and> succeeded k) (since ((), []) s')"
    by (simp add: list_ex_iff)
  with r h3 h4 show ?thesis by (simp add: resp_def s'_def i_def)
qed

section \<open>The matcher and the remote lines\<close>

lemma firstSome_Some:
  "firstSome f ks = Some y \<Longrightarrow> \<exists>k \<in> set ks. f k = Some y"
  by (induction ks) (auto split: option.splits)

lemma firstSome_None: "(\<forall>k \<in> set ks. f k = None) \<Longrightarrow> firstSome f ks = None"
  by (induction ks) auto

lemma firstSome_skip:
  "(\<forall>j \<in> set js. f j = None) \<Longrightarrow> firstSome f (js @ ks) = firstSome f ks"
  by (induction js) auto

lemma set_counts: "set (counts g lo hi) = {k. lo \<le> k \<and> k \<le> hi}"
  by (auto simp: counts_def)

lemma take_takeWhile:
  assumes "k \<le> length (takeWhile P s)"
  shows "\<forall>c \<in> set (take k s). P c"
proof -
  have "take k (takeWhile P s) = take k (take (length (takeWhile P s)) s)"
    using takeWhile_eq_take [of P s] by simp
  also have "\<dots> = take k s" using assms by (simp add: min.absorb1)
  finally have "take k s = take k (takeWhile P s)" by simp
  then show ?thesis by (metis in_set_takeD set_takeWhileD)
qed

lemma matchHere_sound:
  "matchHere items s = Some m \<Longrightarrow>
   list_all2 fits items m \<and> (\<exists>rest. s = concat m @ rest)"
proof (induction items s arbitrary: m rule: matchHere.induct)
  case (1 s)
  then show ?case by simp
next
  case (2 l rest s)
  then show ?case
    by (auto simp: startsWith_def split: if_splits) (metis append_take_drop_id)
next
  case (3 l rest s)
  then show ?case
    by (auto simp: startsWith_def split: if_splits option.splits) (metis append_take_drop_id)+
next
  case (4 cls rest s)
  then show ?case by (auto split: list.splits if_splits)
next
  case (5 cls lo greedy rest s)
  from 5(2) obtain k where k: "k \<in> set (counts greedy lo (length (takeWhile cls s)))"
    and m: "map_option (Cons (take k s)) (matchHere rest (drop k s)) = Some m"
    by (auto dest: firstSome_Some)
  from m obtain m' where m': "matchHere rest (drop k s) = Some m'" "m = take k s # m'" by auto
  from 5(1) [OF m'(1)] have IH: "list_all2 fits rest m'" "\<exists>r. drop k s = concat m' @ r"
    by auto
  from k have le: "lo \<le> k" "k \<le> length (takeWhile cls s)" by (simp_all add: set_counts)
  then have "k \<le> length s" by (meson le_trans length_takeWhile_le)
  with le take_takeWhile [OF le(2)] have "fits (Rep cls lo greedy) (take k s)" by simp
  moreover from IH(2) obtain r where "drop k s = concat m' @ r" by blast
  then have "s = concat (take k s # m') @ r" by (metis append.assoc append_take_drop_id concat.simps(2))
  ultimately show ?case using IH(1) m'(2) by auto
qed

lemma word_not_space: "isWord c \<Longrightarrow> \<not> isWhiteSpace c"
  by (auto simp: isWord_def isWhiteSpace_def Let_def)

text \<open>Splitting a text at a white space character, where white space is scarce.\<close>

lemma split_at_space:
  assumes "u @ e # P = A @ d # B" and "isWhiteSpace d"
    and "\<forall>c \<in> set u. \<not> isWhiteSpace c" and "\<forall>c \<in> set P. \<not> isWhiteSpace c"
  shows "A = u \<and> d = e \<and> B = P"
proof -
  from assms(1) obtain us where
    "(u = A @ us \<and> us @ e # P = d # B) \<or> (u @ us = A \<and> e # P = us @ d # B)"
    by (auto simp: append_eq_append_conv2)
  then show ?thesis
  proof
    assume a: "u = A @ us \<and> us @ e # P = d # B"
    show ?thesis
    proof (cases us)
      case Nil
      with a show ?thesis by simp
    next
      case (Cons x xs)
      with a have "d \<in> set u" by auto
      with assms(2,3) show ?thesis by blast
    qed
  next
    assume a: "u @ us = A \<and> e # P = us @ d # B"
    show ?thesis
    proof (cases us)
      case Nil
      with a show ?thesis by simp
    next
      case (Cons x xs)
      with a have "d \<in> set P" by auto
      with assms(2,4) show ?thesis by blast
    qed
  qed
qed

text \<open>Group 1 of the remote pattern is the first word of the line.\<close>

lemma remotePattern_segments:
  assumes "matchHere remotePattern l = Some m"
  obtains g0 g1 g2 c g4 g6 g7 g8 r where
    "m = [g0, g1, g2, [c], g4, ''/'', g6, g7, g8, ''(fetch)'']"
    "l = g0 @ g1 @ g2 @ [c] @ g4 @ ''/'' @ g6 @ g7 @ g8 @ ''(fetch)'' @ r"
    "g0 \<noteq> []" "\<forall>x \<in> set g0. isWord x" "g1 \<noteq> []" "\<forall>x \<in> set g1. isWhiteSpace x"
    "g4 \<noteq> []" "g8 \<noteq> []" "\<forall>x \<in> set g8. isWhiteSpace x"
proof -
  from matchHere_sound [OF assms] obtain r where
    f: "list_all2 fits remotePattern m" and l: "l = concat m @ r" by blast
  from f obtain g0 g1 g2 g3 g4 g5 g6 g7 g8 g9 where
    m: "m = [g0, g1, g2, g3, g4, g5, g6, g7, g8, g9]"
    and fit: "fits (Rep isWord 1 True) g0" "fits (Rep isWhiteSpace 1 True) g1"
      "fits (One isColonOrSlash) g3" "fits (Rep notSlash 1 True) g4" "fits (Lit ''/'') g5"
      "fits (Rep isWhiteSpace 1 True) g8" "fits (Lit ''(fetch)'') g9"
    by (auto simp: remotePattern_def list_all2_Cons1)
  from fit(3) obtain c where c: "g3 = [c]" by auto
  show thesis
  proof (rule that)
    show "m = [g0, g1, g2, [c], g4, ''/'', g6, g7, g8, ''(fetch)'']"
      using m c fit by simp
    show "l = g0 @ g1 @ g2 @ [c] @ g4 @ ''/'' @ g6 @ g7 @ g8 @ ''(fetch)'' @ r"
      using l m c fit by simp
  qed (use fit in auto)
qed

lemma remote_name:
  assumes "matchHere remotePattern l = Some m"
    and "l = X @ w # rest" and "isWhiteSpace w" and "\<forall>c \<in> set X. \<not> isWhiteSpace c"
  shows "m ! 0 = X"
proof -
  from assms(1) obtain g0 g1 g2 c g4 g6 g7 g8 r where
    m: "m = [g0, g1, g2, [c], g4, ''/'', g6, g7, g8, ''(fetch)'']"
    and l: "l = g0 @ g1 @ g2 @ [c] @ g4 @ ''/'' @ g6 @ g7 @ g8 @ ''(fetch)'' @ r"
    and g: "\<forall>x \<in> set g0. isWord x" "g1 \<noteq> []" "\<forall>x \<in> set g1. isWhiteSpace x"
    by (rule remotePattern_segments)
  from g(2) obtain d g1' where g1: "g1 = d # g1'" by (cases g1) auto
  with g(3) have d: "isWhiteSpace d" by simp
  have "X @ w # rest = g0 @ d # (g1' @ g2 @ [c] @ g4 @ ''/'' @ g6 @ g7 @ g8 @ ''(fetch)'' @ r)"
    using assms(2) l g1 by simp
  then obtain us where
    "(X = g0 @ us \<and> us @ w # rest = d # (g1' @ g2 @ [c] @ g4 @ ''/'' @ g6 @ g7 @ g8 @ ''(fetch)'' @ r)) \<or>
     (X @ us = g0 \<and> w # rest = us @ d # (g1' @ g2 @ [c] @ g4 @ ''/'' @ g6 @ g7 @ g8 @ ''(fetch)'' @ r))"
    by (auto simp: append_eq_append_conv2)
  then have "g0 = X"
  proof
    assume a: "X = g0 @ us \<and> us @ w # rest = d # (g1' @ g2 @ [c] @ g4 @ ''/'' @ g6 @ g7 @ g8 @ ''(fetch)'' @ r)"
    show ?thesis
    proof (cases us)
      case Nil
      with a show ?thesis by simp
    next
      case (Cons x xs)
      with a have "d \<in> set X" by auto
      with d assms(4) show ?thesis by blast
    qed
  next
    assume a: "X @ us = g0 \<and> w # rest = us @ d # (g1' @ g2 @ [c] @ g4 @ ''/'' @ g6 @ g7 @ g8 @ ''(fetch)'' @ r)"
    show ?thesis
    proof (cases us)
      case Nil
      with a show ?thesis by simp
    next
      case (Cons x xs)
      with a have "w \<in> set g0" by auto
      with g(1) assms(3) word_not_space show ?thesis by blast
    qed
  qed
  with m show ?thesis by simp
qed

text \<open>A line that ends in \<open>(push)\<close> is not a remote line for the pattern.\<close>

lemma push_line_no_match:
  assumes "\<forall>c \<in> set X. \<not> isWhiteSpace c" and "\<forall>c \<in> set u. \<not> isWhiteSpace c"
  shows "matchHere remotePattern (X @ [CHR 0x09] @ u @ '' (push)'') = None"
proof (rule ccontr)
  assume "matchHere remotePattern (X @ [CHR 0x09] @ u @ '' (push)'') \<noteq> None"
  then obtain m where m: "matchHere remotePattern (X @ [CHR 0x09] @ u @ '' (push)'') = Some m"
    by auto
  have tab: "isWhiteSpace (CHR 0x09)" by (simp add: isWhiteSpace_def)
  from m obtain g0 g1 g2 c g4 g6 g7 g8 r where
    mm: "m = [g0, g1, g2, [c], g4, ''/'', g6, g7, g8, ''(fetch)'']"
    and l: "X @ [CHR 0x09] @ u @ '' (push)'' =
           g0 @ g1 @ g2 @ [c] @ g4 @ ''/'' @ g6 @ g7 @ g8 @ ''(fetch)'' @ r"
    and g: "g1 \<noteq> []" "g8 \<noteq> []" "\<forall>x \<in> set g8. isWhiteSpace x"
    by (rule remotePattern_segments)
  from remote_name [OF m, of X "CHR 0x09" "u @ '' (push)''"] tab assms(1) mm
  have g0: "g0 = X" by simp
  from g(1) obtain t g1' where g1: "g1 = t # g1'" by (cases g1) auto
  from g(2) obtain d g8' where g8: "g8 = d # g8'" by (cases g8) auto
  with g(3) have d: "isWhiteSpace d" and g8': "\<forall>x \<in> set g8'. isWhiteSpace x" by simp_all
  from l g0 g1 g8
  have "u @ CHR '' '' # ''(push)'' =
        (g1' @ g2 @ [c] @ g4 @ ''/'' @ g6 @ g7) @ d # (g8' @ ''(fetch)'' @ r)"
    by simp
  from split_at_space [OF this d assms(2)]
  have "g8' @ ''(fetch)'' @ r = ''(push)''" by (simp add: isWhiteSpace_def)
  with g8' show False by (cases g8') (auto simp: isWhiteSpace_def)
qed

text \<open>A greedy repetition keeps the longest count for which the rest of the pattern
  matches.\<close>

lemma counts_greedy_split:
  assumes "lo \<le> k" and "k \<le> hi"
  shows "counts True lo hi = rev [Suc k..<Suc hi] @ k # rev [lo..<k]"
proof -
  have 1: "[lo..<Suc hi] = [lo..<k] @ [k..<Suc hi]"
    using assms upt_add_eq_append [of lo k "Suc hi - k"] by simp
  have 2: "[k..<Suc hi] = k # [Suc k..<Suc hi]"
    using assms by (simp add: upt_conv_Cons)
  show ?thesis unfolding counts_def 1 2 by simp
qed

lemma greedy_keeps:
  assumes "lo \<le> k" and "k \<le> length (takeWhile cls s)"
    and "matchHere rest (drop k s) = Some m'"
    and "\<forall>j. k < j \<and> j \<le> length (takeWhile cls s) \<longrightarrow> matchHere rest (drop j s) = None"
  shows "matchHere (Rep cls lo True # rest) s = Some (take k s # m')"
proof -
  let ?f = "\<lambda>k. map_option (Cons (take k s)) (matchHere rest (drop k s))"
  have "\<forall>j \<in> set (rev [Suc k..<Suc (length (takeWhile cls s))]). ?f j = None"
    using assms(4) by auto
  then have "firstSome ?f (counts True lo (length (takeWhile cls s))) = firstSome ?f (k # rev [lo..<k])"
    unfolding counts_greedy_split [OF assms(1,2)] by (rule firstSome_skip)
  also have "\<dots> = Some (take k s # m')" using assms(3) by simp
  finally show ?thesis by simp
qed

lemma greedy_run:
  assumes "\<forall>c \<in> set x. cls c" and "y = [] \<or> \<not> cls (hd y)" and "lo \<le> length x"
    and "matchHere rest y = Some m'"
  shows "matchHere (Rep cls lo True # rest) (x @ y) = Some (x # m')"
proof -
  have tw: "takeWhile cls (x @ y) = x"
    using assms(1,2) by (cases y) (simp_all add: takeWhile_tail)
  have "matchHere (Rep cls lo True # rest) (x @ y) = Some (take (length x) (x @ y) # m')"
    by (rule greedy_keeps) (use assms tw in simp_all)
  then show ?thesis by simp
qed

text \<open>The end of both patterns, \<open>(?:\.git)?\s+\(fetch\)\<close>, on the end of a line.\<close>

lemma space_fetch:
  assumes "\<forall>c \<in> set d. \<not> isWhiteSpace c"
  shows "matchHere [Rep isWhiteSpace 1 True, Lit ''(fetch)''] (d @ '' (fetch)'') =
           (if d = [] then Some ['' '', ''(fetch)''] else None)"
proof (cases d)
  case Nil
  have "takeWhile isWhiteSpace '' (fetch)'' = '' ''" by (simp add: isWhiteSpace_def)
  then show ?thesis using Nil by (simp add: counts_def startsWith_def)
next
  case (Cons c d')
  with assms have "takeWhile isWhiteSpace (d @ '' (fetch)'') = []" by simp
  then show ?thesis using Cons by (simp add: counts_def)
qed

lemma prefix_before:
  assumes "d @ e # S = p @ t" and "e \<notin> set p"
  shows "\<exists>d'. d = p @ d'"
proof -
  from assms(1) have "\<exists>us. (d = p @ us \<and> us @ e # S = t) \<or> (d @ us = p \<and> e # S = us @ t)"
    unfolding append_eq_append_conv2 by blast
  then obtain us where "(d = p @ us \<and> us @ e # S = t) \<or> (d @ us = p \<and> e # S = us @ t)" ..
  then show ?thesis
  proof
    assume "d = p @ us \<and> us @ e # S = t"
    then show ?thesis by blast
  next
    assume a: "d @ us = p \<and> e # S = us @ t"
    show ?thesis
    proof (cases us)
      case Nil
      with a show ?thesis by simp
    next
      case (Cons x xs)
      with a have "e \<in> set p" by auto
      with assms(2) show ?thesis by blast
    qed
  qed
qed

lemma git_space_fetch:
  assumes "\<forall>c \<in> set d. \<not> isWhiteSpace c"
  shows "matchHere [Opt ''.git'', Rep isWhiteSpace 1 True, Lit ''(fetch)''] (d @ '' (fetch)'') =
           (if d = ''.git'' then Some [''.git'', '' '', ''(fetch)'']
            else if d = [] then Some [[], '' '', ''(fetch)''] else None)"
proof (cases "startsWith (d @ '' (fetch)'') ''.git''")
  case False
  then have "d \<noteq> ''.git''" by (auto simp: startsWith_def)
  with False show ?thesis
    unfolding matchHere.simps(3) using space_fetch [OF assms] by (simp del: matchHere.simps)
next
  case True
  then obtain t where "d @ CHR '' '' # ''(fetch)'' = ''.git'' @ t"
    by (auto simp: startsWith_iff)
  from prefix_before [OF this] obtain d' where d': "d = ''.git'' @ d'" by auto
  from assms d' have nd: "\<forall>c \<in> set d'. \<not> isWhiteSpace c" by simp
  from space_fetch [OF assms] d' have no: "matchHere [Rep isWhiteSpace 1 True, Lit ''(fetch)'']
      (''.git'' @ d' @ '' (fetch)'') = None" by simp
  show ?thesis
    unfolding d' matchHere.simps(3) using space_fetch [OF nd] no
    by (simp del: matchHere.simps add: startsWith_def)
qed

lemma counts_lazy_split:
  assumes "lo \<le> k" and "k \<le> hi"
  shows "counts False lo hi = [lo..<k] @ k # [Suc k..<Suc hi]"
proof -
  from assms have "[lo..<Suc hi] = [lo..<k] @ [k..<Suc hi]"
    using upt_add_eq_append [of lo k "Suc hi - k"] by simp
  moreover from assms have "[k..<Suc hi] = k # [Suc k..<Suc hi]" by (simp add: upt_conv_Cons)
  ultimately show ?thesis by (simp add: counts_def)
qed

lemma lazy_keeps:
  assumes "lo \<le> k" and "k \<le> length (takeWhile cls s)"
    and "matchHere rest (drop k s) = Some m'"
    and "\<forall>j. lo \<le> j \<and> j < k \<longrightarrow> matchHere rest (drop j s) = None"
  shows "matchHere (Rep cls lo False # rest) s = Some (take k s # m')"
proof -
  let ?f = "\<lambda>k. map_option (Cons (take k s)) (matchHere rest (drop k s))"
  from assms(4) have "\<forall>j \<in> set [lo..<k]. ?f j = None" by simp
  from firstSome_skip [of "[lo..<k]" ?f, OF this] assms(3)
  show ?thesis
    by (simp add: counts_lazy_split [OF assms(1,2)])
qed

lemma takeWhile_run:
  assumes "\<forall>c \<in> set x. cls c" and "y = [] \<or> \<not> cls (hd y)"
  shows "takeWhile cls (x @ y) = x"
  using assms by (cases y) (simp_all add: takeWhile_append2)

lemma lazy_tail:
  assumes "tok \<noteq> []" and "\<forall>c \<in> set tok. notSlashSpace c"
  shows "matchHere [Rep notSlashSpace 1 False, Opt ''.git'', Rep isWhiteSpace 1 True, Lit ''(fetch)'']
           (tok @ '' (fetch)'') = Some [stripGit tok, gitSuffix tok, '' '', ''(fetch)'']"
proof -
  let ?s = "tok @ '' (fetch)''"
  let ?rest = "[Opt ''.git'', Rep isWhiteSpace 1 True, Lit ''(fetch)'']"
  have tw: "takeWhile notSlashSpace ?s = tok"
    by (rule takeWhile_run) (use assms in \<open>simp_all add: notSlashSpace_def isWhiteSpace_def\<close>)
  have at: "matchHere ?rest (drop j ?s) =
      (if drop j tok = ''.git'' then Some [''.git'', '' '', ''(fetch)'']
       else if drop j tok = [] then Some [[], '' '', ''(fetch)''] else None)"
    if "j \<le> length tok" for j
  proof -
    from assms(2) have "\<forall>c \<in> set (drop j tok). \<not> isWhiteSpace c"
      by (auto simp: notSlashSpace_def dest: in_set_dropD)
    from git_space_fetch [OF this] that show ?thesis by (simp del: matchHere.simps)
  qed
  show ?thesis
  proof (cases "4 < length tok \<and> drop (length tok - 4) tok = ''.git''")
    case True
    let ?k = "length tok - 4"
    from True have "4 < length tok" by simp
    then have k: "1 \<le> ?k" "?k \<le> length (takeWhile notSlashSpace ?s)"
      unfolding tw by arith+
    from True have hit: "matchHere ?rest (drop ?k ?s) = Some [''.git'', '' '', ''(fetch)'']"
      using at [of ?k] by (simp del: matchHere.simps)
    have miss: "\<forall>j. 1 \<le> j \<and> j < ?k \<longrightarrow> matchHere ?rest (drop j ?s) = None"
    proof (intro allI impI)
      fix j assume j: "1 \<le> j \<and> j < ?k"
      then have "4 < length tok - j" by arith
      have "drop j tok \<noteq> ''.git''"
      proof
        assume "drop j tok = ''.git''"
        then have "length (drop j tok) = length ''.git''" by (rule arg_cong)
        with \<open>4 < length tok - j\<close> show False by simp
      qed
      moreover from \<open>4 < length tok - j\<close> have "drop j tok \<noteq> []" by simp
      ultimately have "drop j tok \<noteq> ''.git''" "drop j tok \<noteq> []" by simp_all
      with j show "matchHere ?rest (drop j ?s) = None" using at [of j] by (simp del: matchHere.simps)
    qed
    from lazy_keeps [OF k hit miss] True show ?thesis
      by (simp del: matchHere.simps add: stripGit_def gitSuffix_def)
  next
    case False
    let ?k = "length tok"
    from assms(1) have k: "1 \<le> ?k" "?k \<le> length (takeWhile notSlashSpace ?s)"
      by (simp_all add: tw Suc_le_eq)
    have hit: "matchHere ?rest (drop ?k ?s) = Some [[], '' '', ''(fetch)'']"
      using at [of ?k] by (simp del: matchHere.simps)
    have miss: "\<forall>j. 1 \<le> j \<and> j < ?k \<longrightarrow> matchHere ?rest (drop j ?s) = None"
    proof (intro allI impI)
      fix j assume j: "1 \<le> j \<and> j < ?k"
      have "drop j tok \<noteq> ''.git''"
      proof
        assume g: "drop j tok = ''.git''"
        then have "length (drop j tok) = length ''.git''" by (rule arg_cong)
        then have "length tok - j = 4" by simp
        with j have "j = length tok - 4" "4 < length tok" by arith+
        with g False show False by simp
      qed
      moreover from j have "drop j tok \<noteq> []" by simp
      ultimately show "matchHere ?rest (drop j ?s) = None"
        using j at [of j] by (simp del: matchHere.simps)
    qed
    from False have st: "stripGit tok = tok" "gitSuffix tok = []"
      by (auto simp: stripGit_def gitSuffix_def)
    from lazy_keeps [OF k hit miss] show ?thesis
      by (simp del: matchHere.simps add: st)
  qed
qed

text \<open>Splitting a text at the only place where a character of some kind can be.\<close>

lemma split_at_only:
  assumes "u @ e # P = A @ d # B" and "Q d"
    and "\<forall>c \<in> set u. \<not> Q c" and "\<forall>c \<in> set P. \<not> Q c"
  shows "A = u \<and> d = e \<and> B = P"
proof -
  from assms(1) obtain us where
    "(u = A @ us \<and> us @ e # P = d # B) \<or> (u @ us = A \<and> e # P = us @ d # B)"
    by (auto simp: append_eq_append_conv2)
  then show ?thesis
  proof
    assume a: "u = A @ us \<and> us @ e # P = d # B"
    show ?thesis
    proof (cases us)
      case Nil
      with a show ?thesis by simp
    next
      case (Cons x xs)
      with a have "d \<in> set u" by auto
      with assms(2,3) show ?thesis by blast
    qed
  next
    assume a: "u @ us = A \<and> e # P = us @ d # B"
    show ?thesis
    proof (cases us)
      case Nil
      with a show ?thesis by simp
    next
      case (Cons x xs)
      with a have "d \<in> set P" by auto
      with assms(2,4) show ?thesis by blast
    qed
  qed
qed

text \<open>The repository pattern on the end of a fetch line, from the separator on.\<close>

lemma repoPattern_exact:
  assumes "isColonOrSlash sep" and "own \<noteq> []" and "\<forall>c \<in> set own. notSlash c"
    and "tok \<noteq> []" and "\<forall>c \<in> set tok. notSlashSpace c"
  shows "matchHere repoPattern (sep # own @ ''/'' @ tok @ '' (fetch)'') =
           Some [[sep], own, ''/'', stripGit tok, gitSuffix tok, '' '', ''(fetch)'']"
proof -
  let ?tail = "[Rep notSlashSpace 1 False, Opt ''.git'', Rep isWhiteSpace 1 True, Lit ''(fetch)'']"
  have "matchHere (Lit ''/'' # ?tail) (''/'' @ tok @ '' (fetch)'') =
          Some (''/'' # [stripGit tok, gitSuffix tok, '' '', ''(fetch)''])"
    unfolding matchHere.simps(2) using lazy_tail [OF assms(4,5)]
    by (simp del: matchHere.simps add: startsWith_def)
  from greedy_run [of own notSlash "''/'' @ tok @ '' (fetch)''" 1, OF assms(3) _ _ this] assms(2)
  have "matchHere (Rep notSlash 1 True # Lit ''/'' # ?tail) (own @ ''/'' @ tok @ '' (fetch)'') =
          Some [own, ''/'', stripGit tok, gitSuffix tok, '' '', ''(fetch)'']"
    by (simp del: matchHere.simps add: notSlash_def Suc_le_eq)
  with assms(1) show ?thesis
    unfolding repoPattern_def matchHere.simps(4) by (simp del: matchHere.simps)
qed

text \<open>What a match of the repository pattern needs of its text.\<close>

lemma repoPattern_needs:
  assumes "matchHere repoPattern z = Some m"
  obtains c g1 g3 w r where
    "z = c # g1 @ CHR ''/'' # g3 @ w # r" "isColonOrSlash c" "g1 \<noteq> []"
    "\<forall>x \<in> set g1. notSlash x" "\<forall>x \<in> set g3. notSlashSpace x" "isWhiteSpace w"
proof -
  from matchHere_sound [OF assms] obtain r where
    f: "list_all2 fits repoPattern m" and z: "z = concat m @ r" by blast
  from f obtain g0 g1 g2 g3 g4 g5 g6 where
    m: "m = [g0, g1, g2, g3, g4, g5, g6]"
    and fit: "fits (One isColonOrSlash) g0" "fits (Rep notSlash 1 True) g1" "fits (Lit ''/'') g2"
      "fits (Rep notSlashSpace 1 False) g3" "fits (Opt ''.git'') g4"
      "fits (Rep isWhiteSpace 1 True) g5"
    by (auto simp: repoPattern_def list_all2_Cons1)
  from fit(1) obtain c where c: "g0 = [c]" "isColonOrSlash c" by auto
  from fit(6) obtain w g5' where w: "g5 = w # g5'" "isWhiteSpace w" by (cases g5) auto
  from fit(5) have g4: "\<forall>x \<in> set g4. notSlashSpace x"
    by (auto simp: notSlashSpace_def isWhiteSpace_def)
  show thesis
  proof (rule that [of c g1 "g3 @ g4" w "g5' @ g6 @ r"])
    show "z = c # g1 @ CHR ''/'' # (g3 @ g4) @ w # g5' @ g6 @ r"
      using z m c w fit(3) by simp
    show "\<forall>x \<in> set (g3 @ g4). notSlashSpace x" using fit(4) g4 by auto
  qed (use c w fit in auto)
qed

lemma repoPattern_empty: "matchHere repoPattern [] = None"
  by (simp add: repoPattern_def)

text \<open>Past the separator the pattern cannot start again: only one slash is left.\<close>

lemma no_match_inside:
  assumes "\<forall>c \<in> set own. \<not> isColonOrSlash c" and "\<forall>c \<in> set W. notSlash c"
  shows "matchHere repoPattern (drop i (own @ CHR ''/'' # W)) = None"
proof (rule ccontr)
  define T where "T = own @ CHR ''/'' # W"
  assume "matchHere repoPattern (drop i (own @ CHR ''/'' # W)) \<noteq> None"
  then obtain m where m: "matchHere repoPattern (drop i T) = Some m" by (auto simp: T_def)
  from m obtain c g1 g3 w r where
    z: "drop i T = c # g1 @ CHR ''/'' # g3 @ w # r" and c: "isColonOrSlash c"
    by (rule repoPattern_needs)
  have "T = take i T @ drop i T" by simp
  with z have "T = (take i T @ c # g1) @ CHR ''/'' # (g3 @ w # r)" by simp
  then have "own @ CHR ''/'' # W = (take i T @ c # g1) @ CHR ''/'' # (g3 @ w # r)"
    by (simp only: T_def [symmetric])
  from split_at_only [OF this, of "\<lambda>x. x = CHR ''/''"] assms
  have "take i T @ c # g1 = own" by (auto simp: isColonOrSlash_def notSlash_def)
  then have "c \<in> set own" by (metis in_set_conv_decomp)
  with assms(1) c show False by blast
qed

lemma not_space_dot: "\<not> isWhiteSpace c \<Longrightarrow> isDot c"
  by (auto simp add: isDot_def isWhiteSpace_def)

text \<open>The remote pattern on a fetch line: the greedy \<open>.*\<close> stops at the last separator
  before the owner.\<close>

lemma remotePattern_exact:
  assumes "name \<noteq> []" and "\<forall>c \<in> set name. isWord c"
    and "\<forall>c \<in> set pre. \<not> isWhiteSpace c"
    and "isColonOrSlash sep" and "own \<noteq> []" and "\<forall>c \<in> set own. \<not> isColonOrSlash c"
    and "\<forall>c \<in> set own. \<not> isWhiteSpace c"
    and "tok \<noteq> []" and "\<forall>c \<in> set tok. notSlashSpace c"
  shows "matchHere remotePattern
           (name @ [CHR 0x09] @ pre @ sep # own @ ''/'' @ tok @ '' (fetch)'') =
         Some [name, [CHR 0x09], pre, [sep], own, ''/'', stripGit tok, gitSuffix tok, '' '',
               ''(fetch)'']"
proof -
  define T where "T = own @ ''/'' @ tok @ '' (fetch)''"
  define s where "s = pre @ sep # T"
  let ?m = "[[sep], own, ''/'', stripGit tok, gitSuffix tok, '' '', ''(fetch)'']"
  from assms(6) have own: "\<forall>c \<in> set own. notSlash c"
    by (auto simp: isColonOrSlash_def notSlash_def)
  have sep: "\<not> isWhiteSpace sep" using assms(4) by (auto simp: isColonOrSlash_def isWhiteSpace_def)
  have hit: "matchHere repoPattern (drop (length pre) s) = Some ?m"
    using repoPattern_exact [OF assms(4,5) own assms(8,9)]
    by (simp del: matchHere.simps add: s_def T_def)
  have "\<forall>c \<in> set pre. isDot c" using assms(3) not_space_dot by blast
  moreover have "isDot sep" using sep by (rule not_space_dot)
  moreover have "\<forall>c \<in> set own. isDot c" using assms(7) not_space_dot by blast
  moreover have "\<forall>c \<in> set tok. isDot c"
    using assms(9) not_space_dot unfolding notSlashSpace_def by blast
  moreover have "\<forall>c \<in> set ''/ (fetch)''. isDot c" by (simp add: isDot_def)
  ultimately have dots: "\<forall>c \<in> set s. isDot c"
    by (simp add: s_def T_def ball_Un)
  then have tw: "takeWhile isDot s = s" by (simp add: takeWhile_eq_all_conv)
  have miss: "\<forall>j. length pre < j \<and> j \<le> length (takeWhile isDot s) \<longrightarrow>
      matchHere repoPattern (drop j s) = None"
  proof (intro allI impI)
    fix j assume j: "length pre < j \<and> j \<le> length (takeWhile isDot s)"
    then have "length pre < j" by simp
    then obtain i where i: "j = Suc (length pre + i)" by (auto dest: less_imp_Suc_add)
    have w: "\<forall>c \<in> set (tok @ '' (fetch)''). notSlash c"
      using assms(9) by (auto simp: notSlash_def notSlashSpace_def)
    have "drop j s = drop i (own @ CHR ''/'' # (tok @ '' (fetch)''))"
      by (simp add: i s_def T_def)
    with no_match_inside [OF assms(6) w] show "matchHere repoPattern (drop j s) = None"
      by (simp del: matchHere.simps)
  qed
  have tk: "take (length pre) s = pre" by (simp add: s_def)
  have le: "length pre \<le> length (takeWhile isDot s)" unfolding tw by (simp add: s_def)
  have "matchHere (Rep isDot 0 True # repoPattern) s = Some (take (length pre) s # ?m)"
    by (rule greedy_keeps [OF _ le hit miss]) simp
  then have three: "matchHere (Rep isDot 0 True # repoPattern) s = Some (pre # ?m)"
    unfolding tk .
  have hd_s: "s = [] \<or> \<not> isWhiteSpace (hd s)"
    using assms(3) sep by (cases pre) (simp_all add: s_def)
  have two: "matchHere (Rep isWhiteSpace 1 True # Rep isDot 0 True # repoPattern)
      ([CHR 0x09] @ s) = Some ([CHR 0x09] # pre # ?m)"
    by (rule greedy_run [of "[CHR 0x09]" isWhiteSpace s 1, OF _ hd_s _ three])
      (simp_all add: isWhiteSpace_def)
  have tab: "\<not> isWord (CHR 0x09)" by (simp add: isWord_def)
  have "matchHere (Rep isWord 1 True # Rep isWhiteSpace 1 True # Rep isDot 0 True # repoPattern)
      (name @ [CHR 0x09] @ s) = Some (name # [CHR 0x09] # pre # ?m)"
    by (rule greedy_run [of name isWord "[CHR 0x09] @ s" 1, OF assms(2) _ _ two])
      (use assms(1) tab in \<open>simp_all add: Suc_le_eq\<close>)
  then show ?thesis
    by (simp del: matchHere.simps add: remotePattern_def repoPattern_def s_def T_def)
qed

text \<open>A pattern without \<open>^\<close> skips the positions where it does not match.\<close>

lemma search_skip:
  assumes "\<forall>j < length a. matchHere items (drop j (a @ b)) = None"
  shows "search items (a @ b) = search items b"
  using assms
proof (induction a)
  case Nil
  show ?case by simp
next
  case (Cons x a)
  from Cons.prems have "matchHere items (x # a @ b) = None" by fastforce
  moreover have "\<forall>j < length a. matchHere items (drop j (a @ b)) = None"
  proof (intro allI impI)
    fix j assume "j < length a"
    with Cons.prems have "matchHere items (drop (Suc j) ((x # a) @ b)) = None" by fastforce
    then show "matchHere items (drop j (a @ b)) = None" by simp
  qed
  ultimately show ?case using Cons.IH by simp
qed

lemma search_here:
  assumes "matchHere items s = Some m"
  shows "search items s = Some m"
  using assms by (cases s) simp_all

text \<open>Before the separator the repository pattern cannot start: between a separator it
  could start at and the white space that ends the URL there would be two slashes.\<close>

lemma no_match_before:
  assumes "\<forall>c \<in> set name. \<not> isColonOrSlash c"
    and "\<forall>c \<in> set pre. \<not> isWhiteSpace c"
    and "sep = CHR ''/'' \<or> (\<forall>c \<in> set pre. \<not> isColonOrSlash c)"
    and "\<forall>c \<in> set own. \<not> isWhiteSpace c"
    and "\<forall>c \<in> set tok. notSlashSpace c"
    and "j < length (name @ [CHR 0x09] @ pre)"
  shows "matchHere repoPattern
           (drop j ((name @ [CHR 0x09] @ pre) @ sep # own @ ''/'' @ tok @ '' (fetch)'')) = None"
proof (rule ccontr)
  define a where "a = name @ [CHR 0x09] @ pre"
  define T where "T = sep # own @ ''/'' @ tok @ '' (fetch)''"
  assume "matchHere repoPattern
      (drop j ((name @ [CHR 0x09] @ pre) @ sep # own @ ''/'' @ tok @ '' (fetch)'')) \<noteq> None"
  then obtain m where m: "matchHere repoPattern (drop j (a @ T)) = Some m"
    by (auto simp: a_def T_def)
  from assms(6) have j: "j < length a" by (simp add: a_def)
  then have dj: "drop j (a @ T) = drop j a @ T" by simp
  from j obtain c B where B: "drop j a = c # B" by (cases "drop j a") auto
  from m obtain c' g1 g3 w r where
    z: "drop j (a @ T) = c' # g1 @ CHR ''/'' # g3 @ w # r" and c': "isColonOrSlash c'"
    and g: "\<forall>x \<in> set g1. notSlash x" "\<forall>x \<in> set g3. notSlashSpace x" "isWhiteSpace w"
    by (rule repoPattern_needs)
  from z dj B have cc: "c' = c" and rest: "B @ T = g1 @ CHR ''/'' # g3 @ w # r" by simp_all
  define p where "p = take j a"
  have "a = p @ c # B" using B unfolding p_def by (metis append_take_drop_id)
  then have split: "name @ CHR 0x09 # pre = p @ c # B" by (simp add: a_def)
  have cin: "c \<in> set (name @ CHR 0x09 # pre)" unfolding split by simp
  have tab: "\<not> isColonOrSlash (CHR 0x09)" by (simp add: isColonOrSlash_def)
  from cin c' cc assms(1) tab have cpre: "c \<in> set pre" by auto
  with c' cc assms(3) have sep: "sep = CHR ''/''" by blast
  have Bpre: "set B \<subseteq> set pre"
  proof -
    from split obtain us where
      "(name = p @ us \<and> us @ CHR 0x09 # pre = c # B) \<or>
       (name @ us = p \<and> CHR 0x09 # pre = us @ c # B)"
      by (auto simp: append_eq_append_conv2)
    then show ?thesis
    proof
      assume u: "name = p @ us \<and> us @ CHR 0x09 # pre = c # B"
      show ?thesis
      proof (cases us)
        case Nil
        with u c' cc tab show ?thesis by simp
      next
        case (Cons x xs)
        with u have "c \<in> set name" by auto
        with c' cc assms(1) show ?thesis by blast
      qed
    next
      assume u: "name @ us = p \<and> CHR 0x09 # pre = us @ c # B"
      show ?thesis
      proof (cases us)
        case Nil
        with u c' cc tab show ?thesis by simp
      next
        case (Cons x xs)
        with u have "pre = xs @ c # B" by simp
        then show ?thesis by auto
      qed
    qed
  qed
  define V where "V = B @ CHR ''/'' # own @ CHR ''/'' # tok"
  have slash: "\<not> isWhiteSpace (CHR ''/'')" by (simp add: isWhiteSpace_def)
  have "\<forall>x \<in> set B. \<not> isWhiteSpace x" using Bpre assms(2) by blast
  moreover have "\<forall>x \<in> set tok. \<not> isWhiteSpace x"
    using assms(5) unfolding notSlashSpace_def by blast
  ultimately have V: "\<forall>x \<in> set V. \<not> isWhiteSpace x"
    using assms(4) slash by (simp add: V_def ball_Un)
  have F: "\<forall>x \<in> set ''(fetch)''. \<not> isWhiteSpace x" by (simp add: isWhiteSpace_def)
  have "V @ CHR '' '' # ''(fetch)'' = (g1 @ CHR ''/'' # g3) @ w # r"
    using rest by (simp add: V_def T_def sep)
  from split_at_only [OF this g(3) V F]
  have "g1 @ CHR ''/'' # g3 = V" by simp
  then have "length (filter (\<lambda>x. x = CHR ''/'') (g1 @ CHR ''/'' # g3)) =
      length (filter (\<lambda>x. x = CHR ''/'') V)" by simp
  moreover from g have "filter (\<lambda>x. x = CHR ''/'') g1 = []" "filter (\<lambda>x. x = CHR ''/'') g3 = []"
    by (auto simp: filter_empty_conv notSlash_def notSlashSpace_def)
  ultimately show False by (simp add: V_def)
qed

text \<open>The repository of an upstream fetch line.\<close>

lemma repoOf_fetch_line:
  assumes "\<forall>c \<in> set name. \<not> isColonOrSlash c"
    and "\<forall>c \<in> set pre. \<not> isWhiteSpace c"
    and "isColonOrSlash sep" and "sep = CHR ''/'' \<or> (\<forall>c \<in> set pre. \<not> isColonOrSlash c)"
    and "own \<noteq> []" and "\<forall>c \<in> set own. \<not> isColonOrSlash c"
    and "\<forall>c \<in> set own. \<not> isWhiteSpace c"
    and "tok \<noteq> []" and "\<forall>c \<in> set tok. notSlashSpace c"
  shows "repoOf (name @ [CHR 0x09] @ pre @ sep # own @ ''/'' @ tok @ '' (fetch)'') =
           Some (own @ ''/'' @ stripGit tok)"
proof -
  define a where "a = name @ [CHR 0x09] @ pre"
  define T where "T = sep # own @ ''/'' @ tok @ '' (fetch)''"
  from assms(6) have own: "\<forall>c \<in> set own. notSlash c"
    by (auto simp: isColonOrSlash_def notSlash_def)
  have "\<forall>j < length a. matchHere repoPattern (drop j (a @ T)) = None"
    unfolding a_def T_def using no_match_before [OF assms(1,2,4,7,9)] by blast
  then have "search repoPattern (a @ T) = search repoPattern T" by (rule search_skip)
  also have "\<dots> = Some [[sep], own, ''/'', stripGit tok, gitSuffix tok, '' '', ''(fetch)'']"
    unfolding T_def by (rule search_here) (rule repoPattern_exact [OF assms(3,5) own assms(8,9)])
  finally have "search repoPattern (name @ [CHR 0x09] @ pre @ sep # own @ ''/'' @ tok @ '' (fetch)'')
      = Some [[sep], own, ''/'', stripGit tok, gitSuffix tok, '' '', ''(fetch)'']"
    by (simp add: a_def T_def)
  then show ?thesis using assms(5) by (simp add: repoOf_def)
qed

text \<open>The lines of a listing.\<close>

lemma split_nonempty: "split sep s \<noteq> []"
  by (induction s) (auto split: list.splits)

lemma split_line: "sep \<notin> set l \<Longrightarrow> split sep (l @ sep # s) = l # split sep s"
  by (induction l) auto

lemma split_lines:
  "\<forall>l \<in> set ls. sep \<notin> set l \<Longrightarrow> split sep (concat (map (\<lambda>l. l @ [sep]) ls)) = ls @ [[]]"
  by (induction ls) (simp_all add: split_line)

lemma plain_iff: "plain s \<longleftrightarrow> (\<forall>c \<in> set s. \<not> isWhiteSpace c)"
  by (simp add: plain_def list_all_iff)

lemma plain_no_line_feed: "plain s \<Longrightarrow> CHR 0x0A \<notin> set s"
  by (auto simp: plain_iff isWhiteSpace_def)

lemma remoteLines_no_line_feed:
  assumes "plain (fst r)" and "plain (snd r)" and "l \<in> set (remoteLines r)"
  shows "CHR 0x0A \<notin> set l"
  using assms plain_no_line_feed [of "fst r"] plain_no_line_feed [of "snd r"]
  by (auto simp: remoteLines_def fetchLine_def pushLine_def)

lemma split_listing:
  assumes "\<forall>r \<in> set rs. plain (fst r) \<and> plain (snd r)"
  shows "split (CHR 0x0A) (listing rs) = concat (map remoteLines rs) @ [[]]"
  unfolding listing_def
  by (rule split_lines) (use assms remoteLines_no_line_feed in auto)

text \<open>What one line does to the result of the loop.\<close>

lemma scanRemote_blank: "scanRemote [] st = st"
  by (simp add: scanRemote_def remotePattern_def counts_def)

lemma scanRemote_pushLine:
  assumes "plain name" and "plain url"
  shows "scanRemote (pushLine name url) st = st"
  using push_line_no_match [of name url] assms
  by (simp add: scanRemote_def pushLine_def plain_iff del: matchHere.simps)

lemma scanRemote_keeps_upstream:
  assumes "plain name" and "name \<noteq> ''upstream''"
  shows "upstreamRepo (scanRemote (name @ CHR 0x09 # rest) st) = upstreamRepo st"
proof (cases "matchHere remotePattern (name @ CHR 0x09 # rest)")
  case None
  then show ?thesis by (simp add: scanRemote_def)
next
  case (Some m)
  have "isWhiteSpace (CHR 0x09)" by (simp add: isWhiteSpace_def)
  from remote_name [OF Some refl this] assms(1) have "m ! 0 = name" by (simp add: plain_iff)
  with Some assms(2) show ?thesis by (simp add: scanRemote_def Let_def)
qed

lemma scanRemote_keeps_origin:
  assumes "plain name" and "name \<noteq> ''origin''"
  shows "originOwner (scanRemote (name @ CHR 0x09 # rest) st) = originOwner st"
proof (cases "matchHere remotePattern (name @ CHR 0x09 # rest)")
  case None
  then show ?thesis by (simp add: scanRemote_def)
next
  case (Some m)
  have "isWhiteSpace (CHR 0x09)" by (simp add: isWhiteSpace_def)
  from remote_name [OF Some refl this] assms(1) have "m ! 0 = name" by (simp add: plain_iff)
  with Some assms(2) show ?thesis by (simp add: scanRemote_def Let_def)
qed

lemma word_names: "\<forall>c \<in> set ''upstream''. isWord c" "\<forall>c \<in> set ''origin''. isWord c"
  by code_simp+

lemma hosted_line:
  assumes "hosted lead sep own seg" and "name \<noteq> []" and "\<forall>c \<in> set name. isWord c"
  shows "matchHere remotePattern (fetchLine name (hostedUrl lead sep own seg)) =
           Some [name, [CHR 0x09], lead, [sep], own, ''/'', stripGit seg, gitSuffix seg, '' '',
                 ''(fetch)'']"
proof -
  from assms(1) have h: "\<forall>c \<in> set lead. \<not> isWhiteSpace c" "isColonOrSlash sep" "own \<noteq> []"
    "\<forall>c \<in> set own. \<not> isColonOrSlash c" "\<forall>c \<in> set own. \<not> isWhiteSpace c" "seg \<noteq> []"
    "\<forall>c \<in> set seg. notSlashSpace c"
    by (simp_all add: hosted_def plain_iff list_all_iff)
  from remotePattern_exact [OF assms(2,3) h] show ?thesis
    by (simp add: fetchLine_def hostedUrl_def del: matchHere.simps)
qed

lemma scanRemote_origin:
  assumes "hosted lead sep own seg"
  shows "scanRemote (fetchLine ''origin'' (hostedUrl lead sep own seg)) st =
           st\<lparr>originOwner := Some own\<rparr>"
  using hosted_line [OF assms, of "''origin''"] word_names(2)
  by (simp add: scanRemote_def Let_def del: matchHere.simps)

lemma scanRemote_upstream:
  assumes "hosted lead sep own seg" and "anchored lead sep"
  shows "scanRemote (fetchLine ''upstream'' (hostedUrl lead sep own seg)) st =
           st\<lparr>upstreamRepo := Some (own @ ''/'' @ stripGit seg)\<rparr>"
proof -
  from assms(1) have h: "\<forall>c \<in> set lead. \<not> isWhiteSpace c" "isColonOrSlash sep" "own \<noteq> []"
    "\<forall>c \<in> set own. \<not> isColonOrSlash c" "\<forall>c \<in> set own. \<not> isWhiteSpace c" "seg \<noteq> []"
    "\<forall>c \<in> set seg. notSlashSpace c"
    by (simp_all add: hosted_def plain_iff list_all_iff)
  from assms(2) have a: "sep = CHR ''/'' \<or> (\<forall>c \<in> set lead. \<not> isColonOrSlash c)"
    by (simp add: anchored_def list_all_iff)
  have n: "\<forall>c \<in> set ''upstream''. \<not> isColonOrSlash c" by (simp add: isColonOrSlash_def)
  from repoOf_fetch_line [OF n h(1,2) a h(3-7)]
  have "repoOf (fetchLine ''upstream'' (hostedUrl lead sep own seg)) =
      Some (own @ ''/'' @ stripGit seg)"
    by (simp add: fetchLine_def hostedUrl_def)
  with hosted_line [OF assms(1), of "''upstream''"] word_names(1) show ?thesis
    by (simp add: scanRemote_def Let_def del: matchHere.simps)
qed

text \<open>The loop over the lines of a listing.\<close>

lemma fold_remoteLines:
  "fold scanRemote (concat (map remoteLines (r # rs))) st =
     fold scanRemote (concat (map remoteLines rs))
       (scanRemote (pushLine (fst r) (snd r)) (scanRemote (fetchLine (fst r) (snd r)) st))"
  by (simp add: remoteLines_def)

lemma fold_keeps_upstream:
  assumes "\<forall>r \<in> set rs. plain (fst r) \<and> plain (snd r)" and "''upstream'' \<notin> fst ` set rs"
  shows "upstreamRepo (fold scanRemote (concat (map remoteLines rs)) st) = upstreamRepo st"
  using assms
proof (induction rs arbitrary: st)
  case Nil
  show ?case by simp
next
  case (Cons r rs)
  from Cons.prems have p: "plain (fst r)" "plain (snd r)" "fst r \<noteq> ''upstream''" by auto
  from Cons.prems have "upstreamRepo (fold scanRemote (concat (map remoteLines (r # rs))) st) =
      upstreamRepo (scanRemote (pushLine (fst r) (snd r)) (scanRemote (fetchLine (fst r) (snd r)) st))"
    unfolding fold_remoteLines by (intro Cons.IH) auto
  also have "\<dots> = upstreamRepo (scanRemote (fetchLine (fst r) (snd r)) st)"
    by (simp only: scanRemote_pushLine [OF p(1,2)])
  also have "\<dots> = upstreamRepo st"
    unfolding fetchLine_def using scanRemote_keeps_upstream [OF p(1,3)] by simp
  finally show ?case .
qed

lemma fold_keeps_origin:
  assumes "\<forall>r \<in> set rs. plain (fst r) \<and> plain (snd r)" and "''origin'' \<notin> fst ` set rs"
  shows "originOwner (fold scanRemote (concat (map remoteLines rs)) st) = originOwner st"
  using assms
proof (induction rs arbitrary: st)
  case Nil
  show ?case by simp
next
  case (Cons r rs)
  from Cons.prems have p: "plain (fst r)" "plain (snd r)" "fst r \<noteq> ''origin''" by auto
  from Cons.prems have "originOwner (fold scanRemote (concat (map remoteLines (r # rs))) st) =
      originOwner (scanRemote (pushLine (fst r) (snd r)) (scanRemote (fetchLine (fst r) (snd r)) st))"
    unfolding fold_remoteLines by (intro Cons.IH) auto
  also have "\<dots> = originOwner (scanRemote (fetchLine (fst r) (snd r)) st)"
    by (simp only: scanRemote_pushLine [OF p(1,2)])
  also have "\<dots> = originOwner st"
    unfolding fetchLine_def using scanRemote_keeps_origin [OF p(1,3)] by simp
  finally show ?case .
qed

lemma fold_finds_upstream:
  assumes "\<forall>r \<in> set rs. plain (fst r) \<and> plain (snd r)" and "distinct (map fst rs)"
    and "(''upstream'', hostedUrl lead sep own seg) \<in> set rs"
    and "hosted lead sep own seg" and "anchored lead sep"
  shows "upstreamRepo (fold scanRemote (concat (map remoteLines rs)) st) =
           Some (own @ ''/'' @ stripGit seg)"
proof -
  define u where "u = hostedUrl lead sep own seg"
  from assms(3) obtain rs1 rs2 where rs: "rs = rs1 @ (''upstream'', u) # rs2"
    unfolding u_def by (auto dest: split_list)
  from assms(2) rs have no: "''upstream'' \<notin> fst ` set rs2" by auto
  from assms(1) rs have p2: "\<forall>r \<in> set rs2. plain (fst r) \<and> plain (snd r)" and pu: "plain u"
    by auto
  define st1 where "st1 = fold scanRemote (concat (map remoteLines rs1)) st"
  have "fold scanRemote (concat (map remoteLines rs)) st =
      fold scanRemote (concat (map remoteLines ((''upstream'', u) # rs2))) st1"
    by (simp add: rs st1_def)
  also have "\<dots> = fold scanRemote (concat (map remoteLines rs2))
      (scanRemote (pushLine ''upstream'' u) (scanRemote (fetchLine ''upstream'' u) st1))"
    unfolding fold_remoteLines by simp
  finally have "upstreamRepo (fold scanRemote (concat (map remoteLines rs)) st) =
      upstreamRepo (scanRemote (pushLine ''upstream'' u) (scanRemote (fetchLine ''upstream'' u) st1))"
    by (simp only: fold_keeps_upstream [OF p2 no])
  also have "\<dots> = upstreamRepo (scanRemote (fetchLine ''upstream'' u) st1)"
    by (subst scanRemote_pushLine) (use pu in \<open>simp_all add: plain_def isWhiteSpace_def\<close>)
  also have "\<dots> = Some (own @ ''/'' @ stripGit seg)"
    unfolding u_def by (simp only: scanRemote_upstream [OF assms(4,5)]) simp
  finally show ?thesis .
qed

lemma fold_finds_origin:
  assumes "\<forall>r \<in> set rs. plain (fst r) \<and> plain (snd r)" and "distinct (map fst rs)"
    and "(''origin'', hostedUrl lead sep own seg) \<in> set rs"
    and "hosted lead sep own seg"
  shows "originOwner (fold scanRemote (concat (map remoteLines rs)) st) = Some own"
proof -
  define u where "u = hostedUrl lead sep own seg"
  from assms(3) obtain rs1 rs2 where rs: "rs = rs1 @ (''origin'', u) # rs2"
    unfolding u_def by (auto dest: split_list)
  from assms(2) rs have no: "''origin'' \<notin> fst ` set rs2" by auto
  from assms(1) rs have p2: "\<forall>r \<in> set rs2. plain (fst r) \<and> plain (snd r)" and pu: "plain u"
    by auto
  define st1 where "st1 = fold scanRemote (concat (map remoteLines rs1)) st"
  have "fold scanRemote (concat (map remoteLines rs)) st =
      fold scanRemote (concat (map remoteLines ((''origin'', u) # rs2))) st1"
    by (simp add: rs st1_def)
  also have "\<dots> = fold scanRemote (concat (map remoteLines rs2))
      (scanRemote (pushLine ''origin'' u) (scanRemote (fetchLine ''origin'' u) st1))"
    unfolding fold_remoteLines by simp
  finally have "originOwner (fold scanRemote (concat (map remoteLines rs)) st) =
      originOwner (scanRemote (pushLine ''origin'' u) (scanRemote (fetchLine ''origin'' u) st1))"
    by (simp only: fold_keeps_origin [OF p2 no])
  also have "\<dots> = originOwner (scanRemote (fetchLine ''origin'' u) st1)"
    by (subst scanRemote_pushLine) (use pu in \<open>simp_all add: plain_def isWhiteSpace_def\<close>)
  also have "\<dots> = Some own"
    unfolding u_def by (simp only: scanRemote_origin [OF assms(4)]) simp
  finally show ?thesis .
qed

text \<open>The fork detection on a listing.\<close>

lemma parseRemotes_listing:
  assumes "\<forall>r \<in> set rs. plain (fst r) \<and> plain (snd r)"
  shows "parseRemotes (listing rs) =
           fold scanRemote (concat (map remoteLines rs)) \<lparr>upstreamRepo = None, originOwner = None\<rparr>"
  by (simp add: parseRemotes_def split_listing [OF assms] scanRemote_blank)

section \<open>Fork detection: the PR command of a run\<close>

lemma remote_kinds:
  "preCommand c \<Longrightarrow> c \<noteq> ''git remote -v''"
  "pushCmd b \<noteq> ''git remote -v''" "pushUpstreamCmd b \<noteq> ''git remote -v''"
  "requestedPrCmd body fk b \<noteq> ''git remote -v''"
  by (auto simp: preCommand_def startsWith_iff pushCmd_def pushUpstreamCmd_def
      requestedPrCmd_def prCmd_eq)

lemma requestedPrCmd_eq:
  "\<exists>rest. requestedPrCmd body fk b =
     ''gh pr create --base '' @ quoted (orElse (rq_baseBranch body) ''main'')
       @ headArguments fk b @ '' --title '' @ rest"
  unfolding requestedPrCmd_def prCmd_eq by simp

text \<open>The PR command of a run and the listing of the remotes it was built from.\<close>

lemma pr_command_of_run:
  assumes "createPRHandler sys body s = (resp, s')"
    and "i \<in> set (since s s')" and "isPrCommand i"
    and "j \<in> set (since s s')" and "command j = ''git remote -v''"
  shows "\<exists>p. resp = Success p \<and> command i = requestedPrCmd body (forkOf (outcome j)) (branch p)"
  using assms(1)
proof (cases rule: createPRHandler_shape)
  case invalid
  with assms(2) show ?thesis by simp
next
  case (aborted e)
  with assms(2,3) pre_entry_kinds(1) show ?thesis by blast
next
  case (unpushed pre dir b e1 e2)
  with assms(2,3) pre_entry_kinds(1) show ?thesis by auto
next
  case (pushed dir bo so commits hash pushes prlog url err)
  let ?A = "[invoked ''git rev-parse --abbrev-ref HEAD'' (inWorktreeEnv dir) (Inr bo),
              invoked ''git status --porcelain'' (inWorktreeEnv dir) (Inr so)] @ commits"
  have pre: "\<forall>i \<in> set ?A. preCommand (command i)"
    using pushed(3) by (auto simp: preCommand_def commitCmd_def startsWith_def split: if_splits)
  have A: "\<forall>i \<in> set ?A. \<not> isPrCommand i \<and> command i \<noteq> ''git remote -v''"
    using pre pre_entry_kinds remote_kinds(1) by blast
  have P: "\<forall>i \<in> set pushes. \<not> isPrCommand i \<and> command i \<noteq> ''git remote -v''"
    using pushed(4) remote_kinds(2,3) by auto
  have L: "since s s' = ?A @ pushes @ prlog" by (simp add: pushed(2))
  from assms(2,3) A P have i: "i \<in> set prlog" unfolding L by auto
  from assms(4,5) A P have j: "j \<in> set prlog" unfolding L by auto
  from i assms(3) pushed(5) obtain x r out where
    e: "prlog = [invoked ''command -v gh'' envOnly (Inr x),
                 invoked ''git remote -v'' (inWorktreeEnv dir) r,
                 invoked (requestedPrCmd body (forkOf r) (trim bo)) (inWorktreeEnv dir) out]"
    by auto
  from i e assms(3) have ie: "command i = requestedPrCmd body (forkOf r) (trim bo)" by auto
  from j e assms(5) remote_kinds(4) have "j = invoked ''git remote -v'' (inWorktreeEnv dir) r"
    by auto
  then have "outcome j = r" by simp
  with ie pushed(6) show ?thesis by simp
qed

text \<open>
  The PR command follows the remotes where the patterns can read them.  In every run that
  runs the PR command, on remotes that \<open>git remote -v\<close> lists by distinct names, names
  and URLs without white space: when the URL of \<open>upstream\<close> ends in an owner and a
  repository (\<open>lead\<close>, \<open>:\<close> or \<open>/\<close>, owner, \<open>/\<close>, last segment; the separator a
  slash, or no colon or slash before it) and the URL of \<open>origin\<close> ends in an owner
  \<open>O\<close> and a repository, the PR command is
  \<open>gh pr create --base "B" --repo "owner/name" --head "O:branch" --title ...\<close>, where
  \<open>name\<close> is the last segment of the \<open>upstream\<close> URL without a final \<open>.git\<close>; when
  no remote is named \<open>upstream\<close>, the PR command is
  \<open>gh pr create --base "B" --head "branch" --title ...\<close>.
\<close>

theorem pr_command_follows_remotes:
  assumes "createPRHandler sys body s = (resp, s')"
    and "i \<in> set (since s s')" and "isPrCommand i"
    and "j \<in> set (since s s')" and "command j = ''git remote -v''"
    and "outcome j = Inr (listing rs)"
    and "distinct (map fst rs)" and "\<forall>r \<in> set rs. plain (fst r) \<and> plain (snd r)"
  shows "\<exists>p. resp = Success p \<and>
           ((''upstream'', hostedUrl leadU sepU ownU segU) \<in> set rs \<and>
            hosted leadU sepU ownU segU \<and> anchored leadU sepU \<and>
            (''origin'', hostedUrl leadO sepO ownO segO) \<in> set rs \<and>
            hosted leadO sepO ownO segO \<longrightarrow>
              (\<exists>rest. command i =
                 ''gh pr create --base '' @ quoted (orElse (rq_baseBranch body) ''main'')
                 @ '' --repo '' @ quoted (ownU @ ''/'' @ stripGit segU)
                 @ '' --head '' @ quoted (ownO @ '':'' @ branch p) @ '' --title '' @ rest)) \<and>
           (''upstream'' \<notin> fst ` set rs \<longrightarrow>
              (\<exists>rest. command i =
                 ''gh pr create --base '' @ quoted (orElse (rq_baseBranch body) ''main'')
                 @ '' --head '' @ quoted (branch p) @ '' --title '' @ rest))"
proof -
  from pr_command_of_run [OF assms(1-5)] obtain p where
    p: "resp = Success p"
    and c: "command i = requestedPrCmd body (forkOf (outcome j)) (branch p)" by blast
  define fk where "fk = fold scanRemote (concat (map remoteLines rs))
    \<lparr>upstreamRepo = None, originOwner = None\<rparr>"
  have fk: "forkOf (outcome j) = fk"
    by (simp add: assms(6) forkOf_def parseRemotes_listing [OF assms(8)] fk_def)
  from requestedPrCmd_eq [of body fk "branch p"] obtain rest where
    r: "command i = ''gh pr create --base '' @ quoted (orElse (rq_baseBranch body) ''main'')
       @ headArguments fk (branch p) @ '' --title '' @ rest"
    unfolding c fk by blast
  have fork: "headArguments fk (branch p) =
      '' --repo '' @ quoted (ownU @ ''/'' @ stripGit segU)
        @ '' --head '' @ quoted (ownO @ '':'' @ branch p)"
    if "(''upstream'', hostedUrl leadU sepU ownU segU) \<in> set rs"
      and "hosted leadU sepU ownU segU" and "anchored leadU sepU"
      and "(''origin'', hostedUrl leadO sepO ownO segO) \<in> set rs"
      and "hosted leadO sepO ownO segO"
  proof -
    have "upstreamRepo fk = Some (ownU @ ''/'' @ stripGit segU)"
      unfolding fk_def by (rule fold_finds_upstream [OF assms(8,7) that(1,2,3)])
    moreover have "originOwner fk = Some ownO"
      unfolding fk_def by (rule fold_finds_origin [OF assms(8,7) that(4,5)])
    moreover from that(5) have "ownO \<noteq> []" by (simp add: hosted_def)
    ultimately show ?thesis by (simp add: headArguments_def truthy_def)
  qed
  have plain: "headArguments fk (branch p) = '' --head '' @ quoted (branch p)"
    if "''upstream'' \<notin> fst ` set rs"
  proof -
    have "upstreamRepo fk = None"
      unfolding fk_def using fold_keeps_upstream [OF assms(8) that] by simp
    then show ?thesis by (simp add: headArguments_def truthy_def)
  qed
  show ?thesis
  proof (intro exI [of _ p] conjI impI)
    show "resp = Success p" by (rule p)
  next
    assume a: "(''upstream'', hostedUrl leadU sepU ownU segU) \<in> set rs \<and>
            hosted leadU sepU ownU segU \<and> anchored leadU sepU \<and>
            (''origin'', hostedUrl leadO sepO ownO segO) \<in> set rs \<and>
            hosted leadO sepO ownO segO"
    then have "headArguments fk (branch p) =
      '' --repo '' @ quoted (ownU @ ''/'' @ stripGit segU)
        @ '' --head '' @ quoted (ownO @ '':'' @ branch p)"
      using fork by blast
    with r show "\<exists>rest. command i =
                 ''gh pr create --base '' @ quoted (orElse (rq_baseBranch body) ''main'')
                 @ '' --repo '' @ quoted (ownU @ ''/'' @ stripGit segU)
                 @ '' --head '' @ quoted (ownO @ '':'' @ branch p) @ '' --title '' @ rest"
      by simp
  next
    assume "''upstream'' \<notin> fst ` set rs"
    with plain r show "\<exists>rest. command i =
                 ''gh pr create --base '' @ quoted (orElse (rq_baseBranch body) ''main'')
                 @ '' --head '' @ quoted (branch p) @ '' --title '' @ rest"
      by simp
  qed
qed

theorem pr_command_follows_remotes_example:
  "forkRemotes =
     listing [(''origin'', hostedUrl ''git@github.com'' (CHR '':'') ''alice'' ''repo.git''),
              (''upstream'', hostedUrl ''https://github.com'' (CHR ''/'') ''org'' ''repo.git'')] \<and>
   hosted ''https://github.com'' (CHR ''/'') ''org'' ''repo.git'' \<and>
   anchored ''https://github.com'' (CHR ''/'') \<and>
   hosted ''git@github.com'' (CHR '':'') ''alice'' ''repo.git'' \<and>
   (\<exists>rest. command (last (since ((), [])
       (snd (createPRHandler (scripted (publishScript True True True)) publishRequest ((), []))))) =
      ''gh pr create --base '' @ quoted ''main'' @ '' --repo '' @ quoted ''org/repo''
        @ '' --head '' @ quoted ''alice:feature-x'' @ '' --title '' @ rest)"
proof -
  define rs where "rs =
     [(''origin'', hostedUrl ''git@github.com'' (CHR '':'') ''alice'' ''repo.git''),
      (''upstream'', hostedUrl ''https://github.com'' (CHR ''/'') ''org'' ''repo.git'')]"
  define resp where
    "resp = fst (createPRHandler (scripted (publishScript True True True)) publishRequest ((), []))"
  define s' where
    "s' = snd (createPRHandler (scripted (publishScript True True True)) publishRequest ((), []))"
  define i where "i = last (since ((), []) s')"
  define j where "j = since ((), []) s' ! 8"
  have run: "createPRHandler (scripted (publishScript True True True)) publishRequest ((), [])
      = (resp, s')"
    by (simp add: resp_def s'_def)
  have l: "forkRemotes = listing rs" unfolding rs_def by code_simp
  have b: "resp = Success \<lparr>branch = ''feature-x'', committed = True,
      commitHash = Some ''01234567'', pushed = True,
      prUrl = Some ''https://github.com/org/repo/pull/7'', prCreated = True, prError = None\<rparr>"
    unfolding resp_def by code_simp
  have h2: "i \<in> set (since ((), []) s')" unfolding s'_def i_def by code_simp
  have h3: "isPrCommand i" unfolding i_def s'_def by code_simp
  have h4: "j \<in> set (since ((), []) s')" unfolding s'_def j_def by code_simp
  have h5: "command j = ''git remote -v''" unfolding s'_def j_def by code_simp
  have "outcome j = Inr forkRemotes" unfolding s'_def j_def by code_simp
  then have h6: "outcome j = Inr (listing rs)" by (simp only: l)
  have h7: "distinct (map fst rs)" unfolding rs_def by code_simp
  have "list_all (\<lambda>r. plain (fst r) \<and> plain (snd r)) rs" unfolding rs_def by code_simp
  then have h8: "\<forall>r \<in> set rs. plain (fst r) \<and> plain (snd r)" by (simp add: list_all_iff)
  have u: "(''upstream'', hostedUrl ''https://github.com'' (CHR ''/'') ''org'' ''repo.git'') \<in> set rs"
    and o: "(''origin'', hostedUrl ''git@github.com'' (CHR '':'') ''alice'' ''repo.git'') \<in> set rs"
    by (simp_all add: rs_def)
  have hu: "hosted ''https://github.com'' (CHR ''/'') ''org'' ''repo.git''" by code_simp
  have au: "anchored ''https://github.com'' (CHR ''/'')" by code_simp
  have ho: "hosted ''git@github.com'' (CHR '':'') ''alice'' ''repo.git''" by code_simp
  have sg: "stripGit ''repo.git'' = ''repo''" by code_simp
  from pr_command_follows_remotes [OF run h2 h3 h4 h5 h6 h7 h8,
      where leadU = "''https://github.com''" and sepU = "CHR ''/''" and ownU = "''org''"
        and segU = "''repo.git''" and leadO = "''git@github.com''" and sepO = "CHR '':''"
        and ownO = "''alice''" and segO = "''repo.git''"]
    u o hu au ho
  obtain p rest where p: "resp = Success p" and c: "command i =
      ''gh pr create --base '' @ quoted (orElse (rq_baseBranch publishRequest) ''main'')
        @ '' --repo '' @ quoted (''org'' @ ''/'' @ stripGit ''repo.git'')
        @ '' --head '' @ quoted (''alice'' @ '':'' @ branch p) @ '' --title '' @ rest"
    by blast
  from p b have bp: "branch p = ''feature-x''" by auto
  have ma: "orElse (rq_baseBranch publishRequest) ''main'' = ''main''" by code_simp
  from c have "command i =
      ''gh pr create --base '' @ quoted ''main'' @ '' --repo '' @ quoted ''org/repo''
        @ '' --head '' @ quoted ''alice:feature-x'' @ '' --title '' @ rest"
    by (simp add: bp ma sg)
  then have "\<exists>rest. command i =
      ''gh pr create --base '' @ quoted ''main'' @ '' --repo '' @ quoted ''org/repo''
        @ '' --head '' @ quoted ''alice:feature-x'' @ '' --title '' @ rest" ..
  with l hu au ho show ?thesis unfolding i_def s'_def rs_def by simp
qed

text \<open>
  C6.  The claim: when the remotes include one named \<open>upstream\<close> (and an \<open>origin\<close> with
  an owner), the PR command targets the upstream repository with the head
  \<open>owner:branch\<close>.  The source says the same (\<open>If this is a fork (has upstream remote),
  specify the repo and head\<close>), and \<open>pr_command_follows_remotes\<close> shows it for the URLs the
  patterns can read.  But the pattern wants the last segment of the URL right before the
  white space, so an \<open>upstream\<close> URL that ends in a slash is not read: with
  \<open>upstream\<close> at \<open>https://github.com/org/repo/\<close> and \<open>origin\<close> owned by \<open>alice\<close> the
  run answers with success and its PR command is the same-repository one, with no
  \<open>--repo\<close> and the head \<open>feature-x\<close>; with the same URL without the final slash the
  command has \<open>--repo "org/repo"\<close> and the head \<open>alice:feature-x\<close>.
\<close>

theorem upstream_url_with_final_slash_unread:
  "map command (since ((), [])
     (snd (createPRHandler (scripted (withRemotes slashRemotes (publishScript True True True)))
        publishRequest ((), [])))) =
     [''git rev-parse --abbrev-ref HEAD'', ''git status --porcelain'', ''git add -A'',
      ''git commit -m '' @ quoted ''Changes from feature-x'', ''git rev-parse HEAD'',
      ''git push -u origin feature-x'', ''git push --set-upstream origin feature-x'',
      ''command -v gh'', ''git remote -v'',
      ''gh pr create --base '' @ quoted ''main'' @ '' --head '' @ quoted ''feature-x''
        @ '' --title '' @ quoted ''Add login'' @ '' --body ''
        @ quoted ''Changes from branch feature-x''] \<and>
   outcome (since ((), [])
     (snd (createPRHandler (scripted (withRemotes slashRemotes (publishScript True True True)))
        publishRequest ((), []))) ! 8) = Inr slashRemotes \<and>
   parseRemotes slashRemotes = \<lparr>upstreamRepo = None, originOwner = Some ''alice''\<rparr> \<and>
   fst (createPRHandler (scripted (withRemotes slashRemotes (publishScript True True True)))
        publishRequest ((), [])) =
     Success \<lparr>branch = ''feature-x'', committed = True, commitHash = Some ''01234567'',
       pushed = True, prUrl = Some ''https://github.com/org/repo/pull/7'', prCreated = True,
       prError = None\<rparr> \<and>
   parseRemotes forkRemotes = \<lparr>upstreamRepo = Some ''org/repo'', originOwner = Some ''alice''\<rparr> \<and>
   command (last (since ((), [])
     (snd (createPRHandler (scripted (publishScript True True True)) publishRequest ((), []))))) =
     ''gh pr create --base '' @ quoted ''main'' @ '' --repo '' @ quoted ''org/repo''
        @ '' --head '' @ quoted ''alice:feature-x''
        @ '' --title '' @ quoted ''Add login'' @ '' --body ''
        @ quoted ''Changes from branch feature-x''"
proof -
  have "map command (since ((), [])
     (snd (createPRHandler (scripted (withRemotes slashRemotes (publishScript True True True)))
        publishRequest ((), [])))) =
     [''git rev-parse --abbrev-ref HEAD'', ''git status --porcelain'', ''git add -A'',
      ''git commit -m '' @ quoted ''Changes from feature-x'', ''git rev-parse HEAD'',
      ''git push -u origin feature-x'', ''git push --set-upstream origin feature-x'',
      ''command -v gh'', ''git remote -v'',
      ''gh pr create --base '' @ quoted ''main'' @ '' --head '' @ quoted ''feature-x''
        @ '' --title '' @ quoted ''Add login'' @ '' --body ''
        @ quoted ''Changes from branch feature-x'']" by code_simp
  moreover have "outcome (since ((), [])
     (snd (createPRHandler (scripted (withRemotes slashRemotes (publishScript True True True)))
        publishRequest ((), []))) ! 8) = Inr slashRemotes" by code_simp
  moreover have "parseRemotes slashRemotes = \<lparr>upstreamRepo = None, originOwner = Some ''alice''\<rparr>"
    by code_simp
  moreover have "fst (createPRHandler (scripted (withRemotes slashRemotes (publishScript True True True)))
        publishRequest ((), [])) =
     Success \<lparr>branch = ''feature-x'', committed = True, commitHash = Some ''01234567'',
       pushed = True, prUrl = Some ''https://github.com/org/repo/pull/7'', prCreated = True,
       prError = None\<rparr>" by code_simp
  moreover have "parseRemotes forkRemotes =
      \<lparr>upstreamRepo = Some ''org/repo'', originOwner = Some ''alice''\<rparr>" by code_simp
  moreover have "command (last (since ((), [])
     (snd (createPRHandler (scripted (publishScript True True True)) publishRequest ((), []))))) =
     ''gh pr create --base '' @ quoted ''main'' @ '' --repo '' @ quoted ''org/repo''
        @ '' --head '' @ quoted ''alice:feature-x''
        @ '' --title '' @ quoted ''Add login'' @ '' --body ''
        @ quoted ''Changes from branch feature-x''" by code_simp
  ultimately show ?thesis by simp
qed

end
